theory Spec2Isabelle
  imports Main "HOL-Library.Log_Nat"
begin

section \<open>The rain paradox calculator: \<open>rain-paradox.py\<close>\<close>

text \<open>
  \<open>simulate_wetness\<close> is a pure Python function on numbers. Its parameters are
  annotated \<open>speed_ft_s: float\<close>, \<open>distance_ft: float\<close> and \<open>rain_density: int\<close>. Python
  does not enforce the annotations, and the default distance \<open>500\<close> is itself an int, so the
  speed and the distance are modelled as numbers that are either an int or a float; the
  density is an int. The body dimensions are floats, so every product and the sum have a
  float operand, and the quotient \<open>distance_ft / speed_ft_s\<close> is a float whatever the types
  of its operands. A float is an IEEE 754 binary64 number, and the model keeps that
  arithmetic: each operation returns the exact rational result rounded to the nearest
  double, ties to even, with overflow to infinity, gradual underflow, and NaN for the
  undefined forms. Python's own additions are kept as well: true division raises
  \<open>ZeroDivisionError\<close> on a zero divisor, an \<open>int\<close> operand of a float operation is
  converted to float first, which raises \<open>OverflowError\<close> when the int is too large, and the
  quotient of two ints is the correctly rounded exact quotient, or \<open>OverflowError\<close>.
\<close>

subsection \<open>Python floats\<close>

text \<open>
  A float is a finite double, given by the rational number it denotes, one of the two
  infinities, or NaN. The two zeros of IEEE 754 are one value \<open>Finite 0\<close> here: Python's
  comparisons and \<open>int()\<close> do not tell them apart, a zero divisor of either sign raises,
  and no operation of the program gives results that differ by more than the sign of a zero
  when the sign of a zero operand changes.
\<close>

datatype pyfloat = Finite rat | PosInf | NegInf | NaN

datatype py_error = ZeroDivisionError | OverflowError | ValueError

subsection \<open>Rounding to the nearest double\<close>

text \<open>Rounding a rational to the nearest integer, a tie going to the even neighbour.\<close>

definition round_half_even :: "rat \<Rightarrow> int" where
  "round_half_even x =
     (let f = \<lfloor>x\<rfloor>; r = x - of_int f
      in if r < 1 / 2 then f
         else if 1 / 2 < r then f + 1
         else if even f then f else f + 1)"

text \<open>
  The binary exponent \<open>e\<close> of a nonzero rational: \<open>2 ^ e \<le> \<bar>x\<bar> < 2 ^ (e + 1)\<close>. It is computed
  from the bit lengths of numerator and denominator, which fix it up to one.
\<close>

definition float_exponent :: "rat \<Rightarrow> int" where
  "float_exponent x =
     (let (n, d) = quotient_of \<bar>x\<bar>;
          e0 = bitlen n - bitlen d
      in if 2 powi e0 \<le> \<bar>x\<bar> then e0 else e0 - 1)"

text \<open>
  The spacing of the doubles around \<open>x\<close> is \<open>2 ^ float_quantum x\<close>: 53 significant bits for a
  normal number, and the fixed spacing \<open>2 ^ - 1074\<close> in the subnormal range.
\<close>

definition float_quantum :: "rat \<Rightarrow> int" where
  "float_quantum x = max (float_exponent x - 52) (- 1074)"

text \<open>Rounding with an unbounded exponent range, as IEEE 754 does before it tests for overflow.\<close>

definition round_value :: "rat \<Rightarrow> rat" where
  "round_value x =
     of_int (round_half_even (x / 2 powi float_quantum x)) * 2 powi float_quantum x"

text \<open>
  The correctly rounded double of an exact result. A rounded magnitude of \<open>2 ^ 1024\<close> or more
  overflows to an infinity.
\<close>

definition round_to_double :: "rat \<Rightarrow> pyfloat" where
  "round_to_double x =
     (if x = 0 then Finite 0
      else let y = round_value x
           in if 2 ^ 1024 \<le> y then PosInf
              else if y \<le> - (2 ^ 1024) then NegInf
              else Finite y)"

subsection \<open>Float operations\<close>

text \<open>
  \<open>float_mul\<close>, \<open>float_add\<close> and \<open>float_div\<close> are Python's \<open>*\<close>, \<open>+\<close> and \<open>/\<close> on two floats;
  \<open>float_sub\<close> is \<open>-\<close>, the sum with the negated operand. \<open>float_div\<close> is only called with a
  nonzero divisor: \<open>float_truediv\<close> makes Python's zero test first.
\<close>

fun float_neg :: "pyfloat \<Rightarrow> pyfloat" where
  "float_neg (Finite a) = Finite (- a)"
| "float_neg PosInf = NegInf"
| "float_neg NegInf = PosInf"
| "float_neg NaN = NaN"

fun float_mul :: "pyfloat \<Rightarrow> pyfloat \<Rightarrow> pyfloat" where
  "float_mul NaN y = NaN"
| "float_mul x NaN = NaN"
| "float_mul (Finite a) (Finite b) = round_to_double (a * b)"
| "float_mul (Finite a) PosInf = (if a = 0 then NaN else if 0 < a then PosInf else NegInf)"
| "float_mul (Finite a) NegInf = (if a = 0 then NaN else if 0 < a then NegInf else PosInf)"
| "float_mul PosInf (Finite b) = (if b = 0 then NaN else if 0 < b then PosInf else NegInf)"
| "float_mul NegInf (Finite b) = (if b = 0 then NaN else if 0 < b then NegInf else PosInf)"
| "float_mul PosInf PosInf = PosInf"
| "float_mul PosInf NegInf = NegInf"
| "float_mul NegInf PosInf = NegInf"
| "float_mul NegInf NegInf = PosInf"

fun float_add :: "pyfloat \<Rightarrow> pyfloat \<Rightarrow> pyfloat" where
  "float_add NaN y = NaN"
| "float_add x NaN = NaN"
| "float_add (Finite a) (Finite b) = round_to_double (a + b)"
| "float_add (Finite a) y = y"
| "float_add x (Finite b) = x"
| "float_add PosInf PosInf = PosInf"
| "float_add NegInf NegInf = NegInf"
| "float_add PosInf NegInf = NaN"
| "float_add NegInf PosInf = NaN"

definition float_sub :: "pyfloat \<Rightarrow> pyfloat \<Rightarrow> pyfloat" where
  "float_sub x y = float_add x (float_neg y)"

fun float_div :: "pyfloat \<Rightarrow> pyfloat \<Rightarrow> pyfloat" where
  "float_div NaN y = NaN"
| "float_div x NaN = NaN"
| "float_div (Finite a) (Finite b) = round_to_double (a / b)"
| "float_div (Finite a) y = Finite 0"
| "float_div PosInf (Finite b) = (if 0 < b then PosInf else NegInf)"
| "float_div NegInf (Finite b) = (if 0 < b then NegInf else PosInf)"
| "float_div x y = NaN"

definition float_truediv :: "pyfloat \<Rightarrow> pyfloat \<Rightarrow> py_error + pyfloat" where
  "float_truediv x y = (if y = Finite 0 then Inl ZeroDivisionError else Inr (float_div x y))"

text \<open>Python's \<open><=\<close>, \<open><\<close> and \<open>==\<close> on floats: every comparison with NaN is false.\<close>

fun float_le :: "pyfloat \<Rightarrow> pyfloat \<Rightarrow> bool" where
  "float_le NaN y = False"
| "float_le x NaN = False"
| "float_le (Finite a) (Finite b) = (a \<le> b)"
| "float_le NegInf y = True"
| "float_le x PosInf = True"
| "float_le x y = False"

fun float_lt :: "pyfloat \<Rightarrow> pyfloat \<Rightarrow> bool" where
  "float_lt NaN y = False"
| "float_lt x NaN = False"
| "float_lt (Finite a) (Finite b) = (a < b)"
| "float_lt PosInf y = False"
| "float_lt x NegInf = False"
| "float_lt x y = True"

definition float_eq :: "pyfloat \<Rightarrow> pyfloat \<Rightarrow> bool" where
  "float_eq x y = (x \<noteq> NaN \<and> y \<noteq> NaN \<and> x = y)"

text \<open>A float that is not negative: NaN, or a value \<open>>= 0\<close> (which may be \<open>+inf\<close>).\<close>

definition nonneg_or_nan :: "pyfloat \<Rightarrow> bool" where
  "nonneg_or_nan x = (x = NaN \<or> float_le (Finite 0) x)"

text \<open>
  An \<open>int\<close> operand of a float operation is converted with correct rounding; an int that
  rounds beyond the largest double raises \<open>OverflowError\<close>.
\<close>

definition int_to_float :: "int \<Rightarrow> py_error + pyfloat" where
  "int_to_float n =
     (case round_to_double (of_int n) of
        Finite q \<Rightarrow> Inr (Finite q)
      | _ \<Rightarrow> Inl OverflowError)"

definition int_mul_float :: "int \<Rightarrow> pyfloat \<Rightarrow> py_error + pyfloat" where
  "int_mul_float n y =
     (case int_to_float n of Inl e \<Rightarrow> Inl e | Inr x \<Rightarrow> Inr (float_mul x y))"

subsection \<open>Python numbers: ints and floats\<close>

text \<open>
  The speed and the distance may be passed as an int or as a float. Python's comparisons
  between ints and floats compare the exact values, so a number is compared through the
  value it denotes.
\<close>

datatype pynum = PyInt int | PyFloat pyfloat

fun num_value :: "pynum \<Rightarrow> pyfloat" where
  "num_value (PyInt n) = Finite (of_int n)"
| "num_value (PyFloat x) = x"

definition num_lt :: "pynum \<Rightarrow> pynum \<Rightarrow> bool" where
  "num_lt x y = float_lt (num_value x) (num_value y)"

definition num_le :: "pynum \<Rightarrow> pynum \<Rightarrow> bool" where
  "num_le x y = float_le (num_value x) (num_value y)"

text \<open>\<open>x == 0\<close>: the int zero, or a float zero of either sign.\<close>

fun num_is_zero :: "pynum \<Rightarrow> bool" where
  "num_is_zero (PyInt n) = (n = 0)"
| "num_is_zero (PyFloat x) = (x = Finite 0)"

fun is_int :: "pynum \<Rightarrow> bool" where
  "is_int (PyInt n) = True"
| "is_int (PyFloat x) = False"

text \<open>The operand of a float operation: a float as it is, an int converted.\<close>

fun num_to_float :: "pynum \<Rightarrow> py_error + pyfloat" where
  "num_to_float (PyInt n) = int_to_float n"
| "num_to_float (PyFloat x) = Inr x"

text \<open>
  True division of two ints: \<open>ZeroDivisionError\<close> for a zero divisor, else the exact
  quotient rounded once to the nearest double, and \<open>OverflowError\<close> when that is beyond the
  largest double.
\<close>

definition int_truediv :: "int \<Rightarrow> int \<Rightarrow> py_error + pyfloat" where
  "int_truediv a b =
     (if b = 0 then Inl ZeroDivisionError
      else (case round_to_double (of_int a / of_int b) of
              Finite q \<Rightarrow> Inr (Finite q)
            | _ \<Rightarrow> Inl OverflowError))"

text \<open>
  \<open>x / y\<close> on numbers. With a float on either side, an int operand is converted first (the
  dividend before the divisor), and only then is the divisor tested for zero.
\<close>

fun py_truediv :: "pynum \<Rightarrow> pynum \<Rightarrow> py_error + pyfloat" where
  "py_truediv (PyInt a) (PyInt b) = int_truediv a b"
| "py_truediv (PyInt a) (PyFloat y) =
     (case int_to_float a of Inl e \<Rightarrow> Inl e | Inr x \<Rightarrow> float_truediv x y)"
| "py_truediv (PyFloat x) (PyInt b) =
     (case int_to_float b of Inl e \<Rightarrow> Inl e | Inr y \<Rightarrow> float_truediv x y)"
| "py_truediv (PyFloat x) (PyFloat y) = float_truediv x y"

text \<open>A float times a number.\<close>

fun float_mul_num :: "pyfloat \<Rightarrow> pynum \<Rightarrow> py_error + pyfloat" where
  "float_mul_num x (PyInt n) =
     (case int_to_float n of Inl e \<Rightarrow> Inl e | Inr y \<Rightarrow> Inr (float_mul x y))"
| "float_mul_num x (PyFloat y) = Inr (float_mul x y)"

text \<open>
  An int fits a float when it rounds to a finite double, that is when its magnitude is
  below \<open>2 ^ 1024 - 2 ^ 970\<close>, the midpoint between the largest double and \<open>2 ^ 1024\<close>. A
  float argument needs no conversion. The quotient of two ints fits when its exact value is
  below the same bound.
\<close>

definition int_fits :: "int \<Rightarrow> bool" where
  "int_fits n = (\<bar>n\<bar> < 2 ^ 1024 - 2 ^ 970)"

fun num_fits :: "pynum \<Rightarrow> bool" where
  "num_fits (PyInt n) = int_fits n"
| "num_fits (PyFloat x) = True"

fun quotient_fits :: "pynum \<Rightarrow> pynum \<Rightarrow> bool" where
  "quotient_fits (PyInt a) (PyInt b) = (\<bar>of_int a / of_int b :: rat\<bar> < 2 ^ 1024 - 2 ^ 970)"
| "quotient_fits (PyInt a) (PyFloat y) = True"
| "quotient_fits (PyFloat x) y = True"





subsection \<open>\<open>simulate_wetness\<close>\<close>

text \<open>
  The body dimensions are quotients of int literals: \<open>70 / 12\<close> is the correctly rounded
  double of the exact quotient. The two areas are products of these constants.
\<close>

definition height :: pyfloat where
  "height = round_to_double (70 / 12)"

definition width :: pyfloat where
  "width = round_to_double (20 / 12)"

definition depth :: pyfloat where
  "depth = round_to_double (12 / 12)"

definition top_area :: pyfloat where
  "top_area = float_mul width depth"

definition front_area :: pyfloat where
  "front_area = float_mul height width"

text \<open>
  The function in the order of the source: the division \<open>distance_ft / speed_ft_s\<close> (which
  may raise), then \<open>rain_density * top_area * time_in_rain\<close>, whose first product converts
  the int density, then \<open>rain_density * front_area * distance_ft\<close>, whose second product
  converts an int distance, then the sum.
\<close>

definition simulate_wetness :: "pynum \<Rightarrow> pynum \<Rightarrow> int \<Rightarrow> py_error + pyfloat" where
  "simulate_wetness speed_ft_s distance_ft rain_density =
     (case py_truediv distance_ft speed_ft_s of
        Inl e \<Rightarrow> Inl e
      | Inr time_in_rain \<Rightarrow>
          (case int_mul_float rain_density top_area of
             Inl e \<Rightarrow> Inl e
           | Inr above_rate \<Rightarrow>
               let rain_from_above = float_mul above_rate time_in_rain
               in (case int_mul_float rain_density front_area of
                     Inl e \<Rightarrow> Inl e
                   | Inr front_rate \<Rightarrow>
                       (case float_mul_num front_rate distance_ft of
                          Inl e \<Rightarrow> Inl e
                        | Inr rain_from_front \<Rightarrow>
                            Inr (float_add rain_from_above rain_from_front)))))"

text \<open>
  The closed form of the specification,
  \<open>r * (20/12 * 12/12) * (d / s) + r * (70/12 * 20/12) * d\<close>, evaluated as the Python
  expression it is written as, operands left to right.
\<close>

definition reference_wetness :: "pynum \<Rightarrow> pynum \<Rightarrow> int \<Rightarrow> py_error + pyfloat" where
  "reference_wetness s d r =
     (case int_mul_float r (float_mul (round_to_double (20 / 12)) (round_to_double (12 / 12))) of
        Inl e \<Rightarrow> Inl e
      | Inr a \<Rightarrow>
          (case py_truediv d s of
             Inl e \<Rightarrow> Inl e
           | Inr t \<Rightarrow>
               (case int_mul_float r
                       (float_mul (round_to_double (70 / 12)) (round_to_double (20 / 12))) of
                  Inl e \<Rightarrow> Inl e
                | Inr f \<Rightarrow>
                    (case float_mul_num f d of
                       Inl e \<Rightarrow> Inl e
                     | Inr g \<Rightarrow> Inr (float_add (float_mul a t) g)))))"

text \<open>
  The front-impact term on its own, \<open>density * (70/12 * 20/12) * distance\<close>, evaluated as a
  Python expression.
\<close>

definition front_impact :: "pynum \<Rightarrow> int \<Rightarrow> py_error + pyfloat" where
  "front_impact d r =
     (case int_mul_float r (float_mul (round_to_double (70 / 12)) (round_to_double (20 / 12))) of
        Inl e \<Rightarrow> Inl e
      | Inr f \<Rightarrow> float_mul_num f d)"

text \<open>
  The rain from above on its own, \<open>r * (20/12 * 12/12) * (d / s)\<close>, as a Python expression:
  the product with the int is evaluated before the quotient.
\<close>

definition above_impact :: "pynum \<Rightarrow> pynum \<Rightarrow> int \<Rightarrow> py_error + pyfloat" where
  "above_impact s d r =
     (case int_mul_float r (float_mul (round_to_double (20 / 12)) (round_to_double (12 / 12))) of
        Inl e \<Rightarrow> Inl e
      | Inr a \<Rightarrow> (case py_truediv d s of Inl e \<Rightarrow> Inl e | Inr t \<Rightarrow> Inr (float_mul a t)))"

text \<open>
  \<open>simulate_wetness(s, d, r) - r * (20/12 * 12/12) * (d / s)\<close>: the call, then the subtrahend,
  then the float subtraction.
\<close>

definition wetness_minus_above :: "pynum \<Rightarrow> pynum \<Rightarrow> int \<Rightarrow> py_error + pyfloat" where
  "wetness_minus_above s d r =
     (case simulate_wetness s d r of
        Inl e \<Rightarrow> Inl e
      | Inr w \<Rightarrow> (case above_impact s d r of Inl e \<Rightarrow> Inl e | Inr a \<Rightarrow> Inr (float_sub w a)))"

text \<open>\<open>density * simulate_wetness(speed, distance, 1)\<close>: the call, then int times float.\<close>

definition scaled_unit_wetness :: "pynum \<Rightarrow> pynum \<Rightarrow> int \<Rightarrow> py_error + pyfloat" where
  "scaled_unit_wetness s d r =
     (case simulate_wetness s d 1 of Inl e \<Rightarrow> Inl e | Inr w \<Rightarrow> int_mul_float r w)"

subsection \<open>The driver\<close>

text \<open>
  The float literals of the speed list are the correctly rounded doubles of the decimals
  written. The list comprehension calls \<open>simulate_wetness\<close> with the default distance, the
  int 500, and the default density 1000, left to right, and stops at the first exception.
  The loop then prints \<open>int(wetness)\<close> for each value: the float truncated toward zero, an
  exception for an infinity or NaN.
\<close>

definition speeds :: "pynum list" where
  "speeds =
     [PyFloat (round_to_double (33 / 10)), PyFloat (round_to_double (55 / 10)),
      PyFloat (round_to_double (88 / 10)), PyFloat (round_to_double (132 / 10)),
      PyFloat (round_to_double 30)]"

fun comprehension :: "('a \<Rightarrow> py_error + 'b) \<Rightarrow> 'a list \<Rightarrow> py_error + 'b list" where
  "comprehension f [] = Inr []"
| "comprehension f (x # xs) =
     (case f x of
        Inl e \<Rightarrow> Inl e
      | Inr y \<Rightarrow> (case comprehension f xs of Inl e \<Rightarrow> Inl e | Inr ys \<Rightarrow> Inr (y # ys)))"

definition wetness_values :: "py_error + pyfloat list" where
  "wetness_values = comprehension (\<lambda>speed. simulate_wetness speed (PyInt 500) 1000) speeds"

definition py_int :: "pyfloat \<Rightarrow> py_error + int" where
  "py_int x =
     (case x of
        Finite q \<Rightarrow> Inr (if 0 \<le> q then \<lfloor>q\<rfloor> else \<lceil>q\<rceil>)
      | NaN \<Rightarrow> Inl ValueError
      | _ \<Rightarrow> Inl OverflowError)"

definition printed_wetness :: "py_error + int list" where
  "printed_wetness =
     (case wetness_values of Inl e \<Rightarrow> Inl e | Inr ws \<Rightarrow> comprehension py_int ws)"

subsection \<open>Measuring rounding error\<close>

text \<open>The unit roundoff of binary64: half the spacing of the doubles in \<open>[1, 2)\<close>.\<close>

definition unit_roundoff :: rat where
  "unit_roundoff = 1 / 2 ^ 53"

text \<open>
  \<open>approx n y x\<close>: the computed \<open>y\<close> is the exact \<open>x\<close> up to \<open>n\<close> relative rounding errors.
\<close>

definition approx :: "nat \<Rightarrow> rat \<Rightarrow> rat \<Rightarrow> bool" where
  "approx n y x =
     (x * (1 - unit_roundoff) ^ n \<le> y \<and> y \<le> x * (1 + unit_roundoff) ^ n)"

text \<open>\<open>in_range k x\<close>: a positive magnitude between \<open>2 ^ - k\<close> and \<open>2 ^ k\<close>.\<close>

definition in_range :: "int \<Rightarrow> rat \<Rightarrow> bool" where
  "in_range k x = (2 powi (- k) \<le> x \<and> x \<le> 2 powi k)"

text \<open>
  A number between \<open>2 ^ - 300\<close> and \<open>2 ^ 300\<close>: the box on which the rounding errors are
  bounded. An int in the box lies between 1 and \<open>2 ^ 300\<close>.
\<close>

definition in_box :: "pynum \<Rightarrow> bool" where
  "in_box x =
     (float_le (Finite (1 / 2 ^ 300)) (num_value x) \<and> float_le (num_value x) (Finite (2 ^ 300)))"

section \<open>Properties of rounding\<close>

lemma round_half_even_of_int: "round_half_even (of_int m) = m"
  by (simp add: round_half_even_def)

lemma floor_rat_numeral_div:
  "\<lfloor>numeral a / numeral b :: rat\<rfloor> = numeral a div numeral b"
  using floor_divide_of_int_eq [of "numeral a" "numeral b", where ?'a = rat] by simp

lemma floor_rat_neg_numeral_div:
  "\<lfloor>- (numeral a / numeral b) :: rat\<rfloor> = - numeral a div numeral b"
  using floor_divide_of_int_eq [of "- numeral a" "numeral b", where ?'a = rat] by simp

lemma round_half_even_bounds:
  "x - 1 / 2 \<le> of_int (round_half_even x)" "of_int (round_half_even x) \<le> x + 1 / 2"
proof -
  define f where "f = \<lfloor>x\<rfloor>"
  have fl: "of_int f \<le> x" "x < of_int f + 1"
    unfolding f_def by linarith+
  have r: "round_half_even x = f \<and> x - of_int f \<le> 1 / 2
      \<or> round_half_even x = f + 1 \<and> 1 / 2 \<le> x - of_int f"
    unfolding round_half_even_def Let_def f_def [symmetric] by auto
  from r fl show "x - 1 / 2 \<le> of_int (round_half_even x)"
    by auto
  from r fl show "of_int (round_half_even x) \<le> x + 1 / 2"
    by auto
qed

lemma round_half_even_mono:
  assumes "x \<le> y"
  shows "round_half_even x \<le> round_half_even y"
proof (cases "\<lfloor>x\<rfloor> < \<lfloor>y\<rfloor>")
  case True
  have "round_half_even x \<le> \<lfloor>x\<rfloor> + 1"
    by (simp add: round_half_even_def Let_def)
  moreover have "\<lfloor>y\<rfloor> \<le> round_half_even y"
    by (simp add: round_half_even_def Let_def)
  ultimately show ?thesis
    using True by linarith
next
  case False
  with assms have eq: "\<lfloor>x\<rfloor> = \<lfloor>y\<rfloor>"
    using floor_mono [of x y] by linarith
  with assms show ?thesis
    by (auto simp: round_half_even_def Let_def)
qed

lemma round_half_even_minus: "round_half_even (- x) = - round_half_even x"
proof (cases "x = of_int \<lfloor>x\<rfloor>")
  case True
  then obtain m where "x = of_int m" ..
  then have "- x = of_int (- m)" by simp
  then show ?thesis
    using \<open>x = of_int m\<close> round_half_even_of_int by metis
next
  case False
  have fl: "of_int \<lfloor>x\<rfloor> \<le> x" "x < of_int \<lfloor>x\<rfloor> + 1"
    by linarith+
  with False have lt: "of_int \<lfloor>x\<rfloor> < x" by (metis less_le)
  have "\<lfloor>- x\<rfloor> = - \<lfloor>x\<rfloor> - 1"
    using lt fl by (intro floor_unique) auto
  then show ?thesis
    using lt fl by (auto simp: round_half_even_def Let_def)
qed

lemma float_exponent_bounds:
  assumes "x \<noteq> 0"
  shows "2 powi float_exponent x \<le> \<bar>x\<bar>"
    "\<bar>x\<bar> < 2 powi (float_exponent x + 1)"
proof -
  obtain n d where nd: "quotient_of \<bar>x\<bar> = (n, d)"
    by (cases "quotient_of \<bar>x\<bar>")
  then have d: "0 < d" and x: "\<bar>x\<bar> = of_int n / of_int d"
    by (simp_all add: quotient_of_denom_pos quotient_of_div)
  from assms x d have n: "0 < n"
    by (metis abs_ge_zero divide_eq_0_iff less_le of_int_0 of_int_0_le_iff of_int_pos
          zero_le_divide_iff abs_eq_0_iff not_less)
  define e0 where "e0 = bitlen n - bitlen d"
  have bn: "bitlen n \<ge> 1" "bitlen d \<ge> 1"
    using n d bitlen_eq_zero_iff [of n] bitlen_eq_zero_iff [of d] bitlen_nonneg [of n]
      bitlen_nonneg [of d] by linarith+
  have nb: "(2::rat) powi (bitlen n - 1) \<le> of_int n" "of_int n < (2::rat) powi bitlen n"
  proof -
    have "(2::int) ^ nat (bitlen n - 1) \<le> n" "n < 2 ^ nat (bitlen n)"
      using bitlen_bounds [OF n] by auto
    then have "(of_int (2 ^ nat (bitlen n - 1))::rat) \<le> of_int n"
      "(of_int n :: rat) < of_int (2 ^ nat (bitlen n))"
      by (simp_all only: of_int_le_iff of_int_less_iff)
    then show "(2::rat) powi (bitlen n - 1) \<le> of_int n" "of_int n < (2::rat) powi bitlen n"
      using bn by (simp_all add: power_int_def)
  qed
  have db: "(2::rat) powi (bitlen d - 1) \<le> of_int d" "of_int d < (2::rat) powi bitlen d"
  proof -
    have "(2::int) ^ nat (bitlen d - 1) \<le> d" "d < 2 ^ nat (bitlen d)"
      using bitlen_bounds [OF d] by auto
    then have "(of_int (2 ^ nat (bitlen d - 1))::rat) \<le> of_int d"
      "(of_int d :: rat) < of_int (2 ^ nat (bitlen d))"
      by (simp_all only: of_int_le_iff of_int_less_iff)
    then show "(2::rat) powi (bitlen d - 1) \<le> of_int d" "of_int d < (2::rat) powi bitlen d"
      using bn by (simp_all add: power_int_def)
  qed
  have dpos: "(0::rat) < of_int d" using d by simp
  have lo: "(2::rat) powi (e0 - 1) \<le> \<bar>x\<bar>"
  proof -
    have "(2::rat) powi (e0 - 1) * of_int d \<le> 2 powi (e0 - 1) * 2 powi bitlen d"
      using db by (intro mult_left_mono) auto
    also have "\<dots> = 2 powi (bitlen n - 1)"
      by (simp add: e0_def flip: power_int_add)
    also have "\<dots> \<le> of_int n" by (rule nb)
    finally show ?thesis
      using dpos by (simp add: x pos_le_divide_eq)
  qed
  have hi: "\<bar>x\<bar> < (2::rat) powi (e0 + 1)"
  proof -
    have "of_int n < (2::rat) powi bitlen n" by (rule nb)
    also have "\<dots> = 2 powi (e0 + 1) * 2 powi (bitlen d - 1)"
      by (simp add: e0_def flip: power_int_add)
    also have "\<dots> \<le> 2 powi (e0 + 1) * of_int d"
      using db by (intro mult_left_mono) auto
    finally show ?thesis
      using dpos by (simp add: x pos_divide_less_eq)
  qed
  have fe: "float_exponent x = (if 2 powi e0 \<le> \<bar>x\<bar> then e0 else e0 - 1)"
    by (simp add: float_exponent_def nd e0_def Let_def)
  show "2 powi float_exponent x \<le> \<bar>x\<bar>"
    using lo by (simp add: fe)
  show "\<bar>x\<bar> < 2 powi (float_exponent x + 1)"
    using hi by (auto simp: fe not_le)
qed

lemma float_exponent_eq:
  assumes "2 powi e \<le> \<bar>x\<bar>" "\<bar>x\<bar> < 2 powi (e + 1)"
  shows "float_exponent x = e"
proof -
  have "x \<noteq> 0"
  proof
    assume "x = 0"
    with assms(1) have "(2::rat) powi e \<le> 0" by simp
    moreover have "(0::rat) < 2 powi e" by simp
    ultimately show False by linarith
  qed
  note b = float_exponent_bounds [OF this]
  have "(2::rat) powi e < 2 powi (float_exponent x + 1)"
    using assms(1) b(2) by linarith
  then have 1: "e < float_exponent x + 1"
    by (metis not_less one_le_numeral power_int_increasing)
  have "(2::rat) powi float_exponent x < 2 powi (e + 1)"
    using assms(2) b(1) by linarith
  then have 2: "float_exponent x < e + 1"
    by (metis not_less one_le_numeral power_int_increasing)
  from 1 2 show ?thesis by linarith
qed

lemma float_exponent_minus: "float_exponent (- x) = float_exponent x"
  by (simp add: float_exponent_def)

lemma float_quantum_minus: "float_quantum (- x) = float_quantum x"
  by (simp add: float_quantum_def float_exponent_minus)

lemma float_quantum_ge: "- 1074 \<le> float_quantum x"
  by (simp add: float_quantum_def)

lemma round_value_minus: "round_value (- x) = - round_value x"
  by (simp add: round_value_def float_quantum_minus round_half_even_minus)

lemma powi_two_of_int: "0 \<le> k \<Longrightarrow> (2::rat) powi k = of_int (2 ^ nat k)"
  by (simp add: power_int_def)

lemma powi_two_pos: "(0::rat) < 2 powi k"
  by simp

lemma grid_rescale:
  assumes "q \<le> k"
  shows "of_int m * (2::rat) powi k / 2 powi q = of_int (m * 2 ^ nat (k - q))"
proof -
  have "(2::rat) powi k = 2 powi (k - q) * 2 powi q"
    by (simp flip: power_int_add)
  moreover have "(2::rat) powi (k - q) = of_int (2 ^ nat (k - q))"
    using assms by (intro powi_two_of_int) simp
  ultimately show ?thesis
    by simp
qed

lemma round_value_ge_grid:
  assumes "float_quantum x \<le> k" "of_int m * 2 powi k \<le> x"
  shows "of_int m * 2 powi k \<le> round_value x"
proof -
  define q where "q = float_quantum x"
  have "of_int m * (2::rat) powi k / 2 powi q \<le> x / 2 powi q"
    using assms(2) by (intro divide_right_mono) auto
  then have "round_half_even (of_int (m * 2 ^ nat (k - q))) \<le> round_half_even (x / 2 powi q)"
    using assms(1) by (intro round_half_even_mono) (simp add: grid_rescale q_def)
  then have "m * 2 ^ nat (k - q) \<le> round_half_even (x / 2 powi q)"
    by (simp only: round_half_even_of_int)
  then have "(of_int (m * 2 ^ nat (k - q)) :: rat) \<le> of_int (round_half_even (x / 2 powi q))"
    by (simp only: of_int_le_iff)
  then have "of_int (m * 2 ^ nat (k - q)) * (2::rat) powi q \<le> round_value x"
    unfolding round_value_def q_def [symmetric] by (intro mult_right_mono) auto
  moreover have "of_int (m * 2 ^ nat (k - q)) * (2::rat) powi q = of_int m * 2 powi k"
  proof -
    have "q \<le> k" using assms(1) by (simp add: q_def)
    then have "of_int (m * 2 ^ nat (k - q)) * (2::rat) powi q
        = of_int m * 2 powi k / 2 powi q * 2 powi q"
      by (simp only: grid_rescale)
    also have "\<dots> = of_int m * 2 powi k"
      by simp
    finally show ?thesis .
  qed
  ultimately show ?thesis
    by (simp only:)
qed

lemma round_value_le_grid:
  assumes "float_quantum x \<le> k" "x \<le> of_int m * 2 powi k"
  shows "round_value x \<le> of_int m * 2 powi k"
proof -
  have "of_int (- m) * 2 powi k \<le> round_value (- x)"
    using assms by (intro round_value_ge_grid) (simp_all add: float_quantum_minus)
  then show ?thesis
    by (simp add: round_value_minus)
qed

lemma float_exponent_mono:
  assumes "x \<noteq> 0" "\<bar>x\<bar> \<le> \<bar>y\<bar>"
  shows "float_exponent x \<le> float_exponent y"
proof -
  from assms have "y \<noteq> 0" by auto
  have "(2::rat) powi float_exponent x \<le> \<bar>x\<bar>"
    using assms(1) by (rule float_exponent_bounds)
  also have "\<dots> \<le> \<bar>y\<bar>" by (rule assms)
  also have "\<dots> < 2 powi (float_exponent y + 1)"
    using \<open>y \<noteq> 0\<close> by (rule float_exponent_bounds)
  finally have "float_exponent x < float_exponent y + 1"
    by (metis not_less one_le_numeral power_int_increasing)
  then show ?thesis by simp
qed

lemma round_value_mono_pos:
  assumes "0 < x" "x \<le> y"
  shows "round_value x \<le> round_value y"
proof -
  have nz: "x \<noteq> 0" "y \<noteq> 0" and ab: "\<bar>x\<bar> = x" "\<bar>y\<bar> = y"
    using assms by auto
  have e: "float_exponent x \<le> float_exponent y"
    using assms by (intro float_exponent_mono) auto
  then have q: "float_quantum x \<le> float_quantum y"
    by (simp add: float_quantum_def)
  show ?thesis
  proof (cases "float_quantum x = float_quantum y")
    case True
    have "x / 2 powi float_quantum y \<le> y / 2 powi float_quantum y"
      using assms(2) by (intro divide_right_mono) auto
    then have "round_half_even (x / 2 powi float_quantum y)
        \<le> round_half_even (y / 2 powi float_quantum y)"
      by (rule round_half_even_mono)
    then have "(of_int (round_half_even (x / 2 powi float_quantum y)) :: rat)
        \<le> of_int (round_half_even (y / 2 powi float_quantum y))"
      by (simp only: of_int_le_iff)
    then show ?thesis
      unfolding round_value_def True by (intro mult_right_mono) auto
  next
    case False
    with q have lt: "float_quantum x < float_quantum y" by simp
    define k where "k = float_exponent y"
    have qy: "float_quantum y \<le> k" and qx: "float_quantum x \<le> k"
      and ex: "float_exponent x + 1 \<le> k"
      using lt by (auto simp: float_quantum_def k_def max_def split: if_splits)
    have "x < 2 powi (float_exponent x + 1)"
      using float_exponent_bounds(2) [OF nz(1)] ab by simp
    also have "\<dots> \<le> 2 powi k"
      using ex by (intro power_int_increasing) auto
    finally have "x \<le> of_int 1 * 2 powi k" by simp
    then have 1: "round_value x \<le> of_int 1 * 2 powi k"
      using qx by (intro round_value_le_grid)
    have "of_int 1 * 2 powi k \<le> y"
      using float_exponent_bounds(1) [OF nz(2)] ab by (simp add: k_def)
    then have 2: "of_int 1 * 2 powi k \<le> round_value y"
      using qy by (intro round_value_ge_grid)
    from 1 2 show ?thesis by linarith
  qed
qed

lemma round_value_zero: "round_value 0 = 0"
  by (simp add: round_value_def round_half_even_def)

lemma round_value_nonneg:
  assumes "0 \<le> x"
  shows "0 \<le> round_value x"
proof -
  have "of_int 0 * 2 powi float_quantum x \<le> round_value x"
    using assms by (intro round_value_ge_grid) auto
  then show ?thesis by simp
qed

lemma round_value_mono:
  assumes "x \<le> y"
  shows "round_value x \<le> round_value y"
proof -
  consider "0 < x" | "y < 0" | "x \<le> 0" "0 \<le> y"
    using assms by linarith
  then show ?thesis
  proof cases
    case 1
    then show ?thesis using assms by (rule round_value_mono_pos)
  next
    case 2
    then have "round_value (- y) \<le> round_value (- x)"
      using assms by (intro round_value_mono_pos) auto
    then show ?thesis by (simp add: round_value_minus)
  next
    case 3
    have "0 \<le> round_value (- x)" "0 \<le> round_value y"
      using 3 by (auto intro: round_value_nonneg)
    then show ?thesis by (simp add: round_value_minus)
  qed
qed

lemma float_quantum_grid:
  assumes "m \<noteq> 0" "\<bar>m\<bar> < 2 ^ 53" "- 1074 \<le> k"
  shows "float_quantum (of_int m * 2 powi k) \<le> k"
proof -
  define y :: rat where "y = of_int m * 2 powi k"
  have "y \<noteq> 0" using assms(1) by (simp add: y_def)
  have "\<bar>y\<bar> = of_int \<bar>m\<bar> * 2 powi k"
    by (simp add: y_def abs_mult)
  also have "\<dots> < of_int (2 ^ 53) * 2 powi k"
    using assms(2) by (intro mult_strict_right_mono) (simp_all only: of_int_less_iff powi_two_pos)
  also have "\<dots> = 2 powi (53 + k)"
    by (simp add: power_int_add)
  finally have "\<bar>y\<bar> < 2 powi (53 + k)" .
  with float_exponent_bounds(1) [OF \<open>y \<noteq> 0\<close>]
  have "(2::rat) powi float_exponent y < 2 powi (53 + k)" by linarith
  then have "float_exponent y < 53 + k"
    by (metis not_less one_le_numeral power_int_increasing)
  then show ?thesis
    using assms(3) by (simp add: float_quantum_def y_def)
qed

lemma round_value_grid:
  assumes "\<bar>m\<bar> < 2 ^ 53" "- 1074 \<le> k"
  shows "round_value (of_int m * 2 powi k) = of_int m * 2 powi k"
proof (cases "m = 0")
  case True
  then show ?thesis by (simp add: round_value_zero)
next
  case False
  then have "float_quantum (of_int m * 2 powi k) \<le> k"
    using assms by (rule float_quantum_grid)
  then have "of_int m * 2 powi k \<le> round_value (of_int m * 2 powi k)"
    "round_value (of_int m * 2 powi k) \<le> of_int m * 2 powi k"
    by (auto intro: round_value_ge_grid round_value_le_grid)
  then show ?thesis by linarith
qed

lemma round_value_form:
  obtains m k where "round_value x = of_int m * 2 powi k" "\<bar>m\<bar> < 2 ^ 53" "- 1074 \<le> k"
proof (cases "x = 0")
  case True
  have "round_value x = of_int 0 * 2 powi 0" "\<bar>0::int\<bar> < 2 ^ 53" "- 1074 \<le> (0::int)"
    using True by (simp_all add: round_value_zero)
  then show ?thesis by (rule that)
next
  case False
  define q where "q = float_quantum x"
  define M where "M = round_half_even (x / 2 powi q)"
  have rv: "round_value x = of_int M * 2 powi q"
    by (simp add: round_value_def q_def M_def)
  have q: "- 1074 \<le> q" "float_exponent x + 1 \<le> q + 53"
    by (simp_all add: q_def float_quantum_def)
  have "\<bar>x\<bar> < 2 powi (float_exponent x + 1)"
    using False by (rule float_exponent_bounds)
  also have "\<dots> \<le> 2 powi (q + 53)"
    using q(2) by (intro power_int_increasing) auto
  also have "\<dots> = of_int (2 ^ 53) * 2 powi q"
    by (simp add: power_int_add)
  finally have x: "x \<le> of_int (2 ^ 53) * 2 powi q" "of_int (- (2 ^ 53)) * 2 powi q \<le> x"
    by (auto simp: abs_less_iff)
  have "round_value x \<le> of_int (2 ^ 53) * 2 powi q"
    using x(1) by (intro round_value_le_grid) (simp add: q_def)
  then have "of_int M * (2::rat) powi q \<le> of_int (2 ^ 53) * 2 powi q"
    by (simp only: rv)
  then have "(of_int M :: rat) \<le> of_int (2 ^ 53)"
    using powi_two_pos [of q] by (simp only: mult_le_cancel_right_pos)
  then have up: "M \<le> 2 ^ 53"
    by (simp only: of_int_le_iff)
  have "of_int (- (2 ^ 53)) * 2 powi q \<le> round_value x"
    using x(2) by (intro round_value_ge_grid) (simp add: q_def)
  then have "of_int (- (2 ^ 53)) * 2 powi q \<le> of_int M * (2::rat) powi q"
    by (simp only: rv)
  then have "(of_int (- (2 ^ 53)) :: rat) \<le> of_int M"
    using powi_two_pos [of q] by (simp only: mult_le_cancel_right_pos)
  then have lo: "- (2 ^ 53) \<le> M"
    by (simp only: of_int_le_iff)
  show ?thesis
  proof (cases "\<bar>M\<bar> < 2 ^ 53")
    case True
    with rv q(1) show ?thesis using that by blast
  next
    case False
    with up lo have "M = 2 ^ 53 \<or> M = - (2 ^ 53)" by linarith
    then obtain m where m: "M = 2 * m" "\<bar>m\<bar> < 2 ^ 53"
      by (elim disjE) (rule that [of "2 ^ 52"], simp, simp, rule that [of "- (2 ^ 52)"], simp, simp)
    have "round_value x = of_int m * 2 powi (q + 1)"
      by (simp add: rv m(1) power_int_add)
    moreover have "- 1074 \<le> q + 1" using q(1) by simp
    ultimately show ?thesis using m(2) that by blast
  qed
qed

lemma round_value_idem: "round_value (round_value x) = round_value x"
proof -
  obtain m k where "round_value x = of_int m * 2 powi k" "\<bar>m\<bar> < 2 ^ 53" "- 1074 \<le> k"
    by (rule round_value_form)
  then show ?thesis
    by (simp only: round_value_grid)
qed

lemma round_to_double_idem:
  assumes "round_to_double x = Finite y"
  shows "round_to_double y = Finite y"
proof (cases "x = 0")
  case True
  with assms show ?thesis by (auto simp: round_to_double_def)
next
  case False
  with assms have y: "y = round_value x" "\<not> 2 ^ 1024 \<le> y" "\<not> y \<le> - (2 ^ 1024)"
    by (auto simp: round_to_double_def Let_def split: if_splits)
  then have "round_value y = y"
    by (simp add: round_value_idem)
  with y show ?thesis
    by (simp add: round_to_double_def Let_def)
qed

lemma round_to_double_not_NaN: "round_to_double x \<noteq> NaN"
  by (simp add: round_to_double_def Let_def)

lemma round_to_double_mono:
  assumes "x \<le> y"
  shows "float_le (round_to_double x) (round_to_double y)"
proof -
  have rv: "round_value x \<le> round_value y"
    using assms by (rule round_value_mono)
  have r: "round_to_double z =
      (if 2 ^ 1024 \<le> round_value z then PosInf
       else if round_value z \<le> - (2 ^ 1024) then NegInf
       else Finite (round_value z))" for z
    by (simp add: round_to_double_def Let_def round_value_zero)
  show ?thesis
    using rv by (simp add: r)
qed

lemma round_to_double_nonneg:
  assumes "0 \<le> x"
  shows "float_le (Finite 0) (round_to_double x)"
proof -
  have "float_le (round_to_double 0) (round_to_double x)"
    using assms by (rule round_to_double_mono)
  then show ?thesis by (simp add: round_to_double_def)
qed

lemma round_to_double_minus: "round_to_double (- x) = float_neg (round_to_double x)"
  by (simp add: round_to_double_def Let_def round_value_minus)

lemmas round_eval =
  round_to_double_def round_value_def float_quantum_def round_half_even_def Let_def
  floor_rat_numeral_div floor_rat_neg_numeral_div

lemma int_to_float_cases:
  obtains (overflow) "int_to_float n = Inl OverflowError"
  | (finite) q where "int_to_float n = Inr (Finite q)" "round_to_double (of_int n) = Finite q"
  by (cases "round_to_double (of_int n)") (auto simp: int_to_float_def round_to_double_not_NaN)

lemma round_value_max_int:
  "round_value (2 ^ 1024 - 2 ^ 970 - 1) = 2 ^ 1024 - 2 ^ 971"
  by (simp add: round_eval float_exponent_eq [where e = 1023])

lemma round_value_overflow_int:
  "round_value (2 ^ 1024 - 2 ^ 970) = 2 ^ 1024"
  by (simp add: round_eval float_exponent_eq [where e = 1023])

lemma round_value_int_overflow_iff:
  fixes n :: int
  assumes "0 \<le> n"
  shows "2 ^ 1024 \<le> round_value (of_int n) \<longleftrightarrow> 2 ^ 1024 - 2 ^ 970 \<le> n"
proof
  assume "2 ^ 1024 - 2 ^ 970 \<le> n"
  then have "(of_int (2 ^ 1024 - 2 ^ 970) :: rat) \<le> of_int n"
    by (simp only: of_int_le_iff)
  then have "round_value (2 ^ 1024 - 2 ^ 970) \<le> round_value (of_int n)"
    by (intro round_value_mono) simp
  then show "2 ^ 1024 \<le> round_value (of_int n)"
    by (simp only: round_value_overflow_int)
next
  assume *: "2 ^ 1024 \<le> round_value (of_int n)"
  show "2 ^ 1024 - 2 ^ 970 \<le> n"
  proof (rule ccontr)
    assume "\<not> 2 ^ 1024 - 2 ^ 970 \<le> n"
    then have "n \<le> 2 ^ 1024 - 2 ^ 970 - 1" by simp
    then have "(of_int n :: rat) \<le> of_int (2 ^ 1024 - 2 ^ 970 - 1)"
      by (simp only: of_int_le_iff)
    then have "round_value (of_int n) \<le> round_value (2 ^ 1024 - 2 ^ 970 - 1)"
      by (intro round_value_mono) simp
    with * show False
      by (simp only: round_value_max_int) simp
  qed
qed

lemma int_to_float_overflow_iff:
  "int_to_float n = Inl OverflowError \<longleftrightarrow> 2 ^ 1024 - 2 ^ 970 \<le> \<bar>n\<bar>"
proof -
  define B :: int where "B = 2 ^ 1024 - 2 ^ 970"
  define T :: rat where "T = 2 ^ 1024"
  have pos: "T \<le> round_value (of_int m) \<longleftrightarrow> B \<le> m" if "0 \<le> m" for m
    using round_value_int_overflow_iff [OF that] unfolding B_def T_def .
  have T: "0 < T" by (simp add: T_def)
  have nonfin: "int_to_float n = Inl OverflowError \<longleftrightarrow>
      T \<le> round_value (of_int n) \<or> round_value (of_int n) \<le> - T"
    unfolding T_def by (auto simp: int_to_float_def round_to_double_def Let_def round_value_zero)
  have "int_to_float n = Inl OverflowError \<longleftrightarrow> B \<le> \<bar>n\<bar>"
  proof (cases "0 \<le> n")
    case True
    then have "0 \<le> round_value (of_int n)"
      by (intro round_value_nonneg) simp
    with T have "\<not> round_value (of_int n) \<le> - T"
      by linarith
    with True pos [of n] show ?thesis
      by (simp add: nonfin)
  next
    case False
    then have n: "0 \<le> - n" by simp
    then have "0 \<le> round_value (of_int (- n))"
      by (intro round_value_nonneg) simp
    then have "round_value (of_int n) \<le> 0"
      by (simp add: round_value_minus)
    with T have "\<not> T \<le> round_value (of_int n)"
      by linarith
    moreover have "round_value (of_int n) \<le> - T \<longleftrightarrow> T \<le> round_value (of_int (- n))"
      by (auto simp add: round_value_minus)
    ultimately show ?thesis
      using False pos [OF n] by (simp add: nonfin)
  qed
  then show ?thesis
    unfolding B_def .
qed

section \<open>Conversions and the quotient\<close>

lemma round_half_even_below:
  assumes "z < of_int m + 1 / 2"
  shows "round_half_even z \<le> m"
proof -
  have "of_int (round_half_even z) \<le> z + 1 / 2"
    by (rule round_half_even_bounds)
  with assms have "(of_int (round_half_even z) :: rat) < of_int (m + 1)"
    by simp
  then have "round_half_even z < m + 1"
    by (simp only: of_int_less_iff)
  then show ?thesis
    by simp
qed

lemma round_value_below_overflow:
  assumes "0 \<le> x" "x < 2 powi 1024 - 2 powi 970"
  shows "round_value x < 2 powi 1024"
proof (cases "x = 0")
  case True
  then show ?thesis
    by (simp add: round_value_zero)
next
  case False
  define q where "q = float_quantum x"
  define M :: int where "M = 2 ^ nat (1024 - q)"
  have "(2::rat) powi float_exponent x \<le> \<bar>x\<bar>"
    using False by (rule float_exponent_bounds)
  moreover have "\<bar>x\<bar> < 2 powi 1024"
  proof -
    have "(0::rat) < 2 powi 970"
      by (rule powi_two_pos)
    with assms show ?thesis
      by linarith
  qed
  ultimately have "(2::rat) powi float_exponent x < 2 powi 1024"
    by linarith
  then have "float_exponent x < 1024"
    by (metis not_less one_le_numeral power_int_increasing)
  then have q: "q \<le> 971" "- 1074 \<le> q"
    by (simp_all add: q_def float_quantum_def)
  have M: "(of_int M :: rat) = 2 powi (1024 - q)"
    unfolding M_def using q(1) by (intro powi_two_of_int [symmetric]) simp
  have Mq: "(of_int M :: rat) * 2 powi q = 2 powi 1024"
    by (simp add: M flip: power_int_add)
  have half: "(2::rat) powi (q - 1) * 2 = 2 powi q"
  proof -
    have "(2::rat) powi (q - 1 + 1) = 2 powi (q - 1) * 2 powi 1"
      by (rule power_int_add) simp
    then show ?thesis
      by simp
  qed
  have "(2::rat) powi (q - 1) \<le> 2 powi 970"
    using q(1) by (intro power_int_increasing) auto
  with assms(2) have "x < 2 powi 1024 - 2 powi (q - 1)"
    by linarith
  also have "\<dots> = (of_int M - 1 / 2) * 2 powi q"
    by (simp add: left_diff_distrib Mq half)
  finally have "x / 2 powi q < of_int M - 1 / 2"
    by (simp add: pos_divide_less_eq)
  then have "x / 2 powi q < of_int (M - 1) + 1 / 2"
    by simp
  then have "round_half_even (x / 2 powi q) \<le> M - 1"
    by (rule round_half_even_below)
  then have "(of_int (round_half_even (x / 2 powi q)) :: rat) \<le> of_int (M - 1)"
    by (simp only: of_int_le_iff)
  then have "round_value x \<le> of_int (M - 1) * 2 powi q"
    unfolding round_value_def q_def [symmetric] by (intro mult_right_mono) auto
  also have "\<dots> = 2 powi 1024 - 2 powi q"
    by (simp add: left_diff_distrib Mq)
  also have "\<dots> < 2 powi 1024"
    using powi_two_pos [of q] by linarith
  finally show ?thesis .
qed

lemma round_value_overflow_powi:
  "round_value (2 powi 1024 - 2 powi 970) = 2 powi 1024"
  using round_value_overflow_int by simp

lemma round_to_double_cases:
  "round_to_double z =
     (if 2 powi 1024 \<le> round_value z then PosInf
      else if round_value z \<le> - (2 powi 1024) then NegInf
      else Finite (round_value z))"
  by (simp add: round_to_double_def Let_def round_value_zero)

lemma round_to_double_finite_nonneg:
  assumes "0 \<le> x"
  shows "(\<exists>y. round_to_double x = Finite y) \<longleftrightarrow> x < 2 powi 1024 - 2 powi 970"
proof -
  have nn: "0 \<le> round_value x"
    using assms by (rule round_value_nonneg)
  have T: "(0::rat) < 2 powi 1024"
    by (rule powi_two_pos)
  have fin: "(\<exists>y. round_to_double x = Finite y) \<longleftrightarrow> round_value x < 2 powi 1024"
    using nn T by (auto simp: round_to_double_cases)
  show ?thesis
  proof
    assume "x < 2 powi 1024 - 2 powi 970"
    with assms have "round_value x < 2 powi 1024"
      by (rule round_value_below_overflow)
    then show "\<exists>y. round_to_double x = Finite y"
      by (simp only: fin)
  next
    assume "\<exists>y. round_to_double x = Finite y"
    then have *: "round_value x < 2 powi 1024"
      by (simp only: fin)
    show "x < 2 powi 1024 - 2 powi 970"
    proof (rule ccontr)
      assume "\<not> x < 2 powi 1024 - 2 powi 970"
      then have "2 powi 1024 - 2 powi 970 \<le> x"
        by simp
      then have "round_value (2 powi 1024 - 2 powi 970) \<le> round_value x"
        by (rule round_value_mono)
      with * show False
        by (simp only: round_value_overflow_powi)
    qed
  qed
qed

lemma round_to_double_finite_iff:
  "(\<exists>y. round_to_double x = Finite y) \<longleftrightarrow> \<bar>x\<bar> < 2 powi 1024 - 2 powi 970"
proof (cases "0 \<le> x")
  case True
  then show ?thesis
    using round_to_double_finite_nonneg [of x] by simp
next
  case False
  then have n: "0 \<le> - x"
    by simp
  have "(\<exists>y. round_to_double x = Finite y) \<longleftrightarrow> (\<exists>y. round_to_double (- x) = Finite y)"
    by (cases "round_to_double x") (simp_all add: round_to_double_minus)
  also have "\<dots> \<longleftrightarrow> - x < 2 powi 1024 - 2 powi 970"
    using n by (rule round_to_double_finite_nonneg)
  finally show ?thesis
    using False by simp
qed

lemma powi_bound: "(2::rat) powi 1024 - 2 powi 970 = 2 ^ 1024 - 2 ^ 970"
  by simp

lemma int_to_float_Inr_iff: "(\<exists>x. int_to_float n = Inr x) \<longleftrightarrow> int_fits n"
proof -
  have "(\<exists>x. int_to_float n = Inr x) \<longleftrightarrow> int_to_float n \<noteq> Inl OverflowError"
    by (cases n rule: int_to_float_cases) simp_all
  then show ?thesis
    unfolding int_fits_def by (simp only: int_to_float_overflow_iff not_le)
qed

lemma int_to_float_error: "int_to_float n = Inl e \<Longrightarrow> e = OverflowError"
  by (cases n rule: int_to_float_cases) simp_all

lemma int_to_float_round: "int_to_float n = Inr x \<Longrightarrow> x = round_to_double (of_int n)"
  by (cases n rule: int_to_float_cases) simp_all

lemma round_to_double_1: "round_to_double 1 = Finite 1"
  by (simp add: round_eval float_exponent_eq [where e = 0])

lemma int_to_float_ge_1:
  assumes "0 < n" "int_to_float n = Inr x"
  shows "float_le (Finite 1) x"
proof -
  have "(1::rat) \<le> of_int n"
    using assms(1) by simp
  then have "float_le (round_to_double 1) (round_to_double (of_int n))"
    by (rule round_to_double_mono)
  then show ?thesis
    by (simp only: round_to_double_1 int_to_float_round [OF assms(2)])
qed

lemma int_to_float_pos:
  assumes "0 < n" "int_to_float n = Inr x"
  shows "float_lt (Finite 0) x"
  using int_to_float_ge_1 [OF assms] by (cases x) simp_all

lemma int_to_float_0: "int_to_float 0 = Inr (Finite 0)"
  by (simp add: int_to_float_def round_to_double_def)

lemma int_to_float_zero_iff: "int_to_float n = Inr (Finite 0) \<longleftrightarrow> n = 0"
proof
  assume z: "int_to_float n = Inr (Finite 0)"
  show "n = 0"
  proof (rule ccontr)
    assume "n \<noteq> 0"
    then consider "0 < n" | "0 < - n"
      by linarith
    then show False
    proof cases
      case 1
      from int_to_float_ge_1 [OF 1 z] show False
        by simp
    next
      case 2
      have "round_to_double (of_int (- n)) = float_neg (round_to_double (of_int n))"
        by (simp add: round_to_double_minus)
      also have "\<dots> = Finite 0"
        by (simp flip: int_to_float_round [OF z])
      finally have "int_to_float (- n) = Inr (Finite 0)"
        by (simp add: int_to_float_def)
      from int_to_float_ge_1 [OF 2 this] show False
        by simp
    qed
  qed
next
  assume "n = 0"
  then show "int_to_float n = Inr (Finite 0)"
    by (simp add: int_to_float_0)
qed

lemma num_to_float_error: "num_to_float d = Inl e \<Longrightarrow> e = OverflowError"
  by (cases d) (simp_all add: int_to_float_error)

lemma num_to_float_Inr_iff: "(\<exists>x. num_to_float d = Inr x) \<longleftrightarrow> num_fits d"
  by (cases d) (simp_all add: int_to_float_Inr_iff)

lemma float_mul_num_eq:
  "float_mul_num x d =
     (case num_to_float d of Inl e \<Rightarrow> Inl e | Inr y \<Rightarrow> Inr (float_mul x y))"
  by (cases d) simp_all

lemma int_truediv_error:
  "int_truediv a b = Inl e \<Longrightarrow> (b = 0 \<and> e = ZeroDivisionError) \<or> (b \<noteq> 0 \<and> e = OverflowError)"
  by (auto simp: int_truediv_def split: if_splits pyfloat.splits)

lemma int_truediv_value:
  assumes "int_truediv a b = Inr t"
  shows "b \<noteq> 0" "t = round_to_double (of_int a / of_int b)"
  using assms by (auto simp: int_truediv_def split: if_splits pyfloat.splits)

lemma int_truediv_Inr_iff:
  "(\<exists>t. int_truediv a b = Inr t) \<longleftrightarrow>
     b \<noteq> 0 \<and> \<bar>of_int a / of_int b :: rat\<bar> < 2 powi 1024 - 2 powi 970"
proof -
  have "(\<exists>t. int_truediv a b = Inr t) \<longleftrightarrow>
      b \<noteq> 0 \<and> (\<exists>y. round_to_double (of_int a / of_int b) = Finite y)"
    by (auto simp: int_truediv_def split: pyfloat.splits)
  then show ?thesis
    by (simp only: round_to_double_finite_iff)
qed

lemma float_truediv_Inr: "float_truediv x y = Inr t \<Longrightarrow> y \<noteq> Finite 0 \<and> t = float_div x y"
  by (auto simp: float_truediv_def split: if_splits)

lemma float_truediv_Inl: "float_truediv x y = Inl e \<Longrightarrow> y = Finite 0 \<and> e = ZeroDivisionError"
  by (auto simp: float_truediv_def split: if_splits)

lemma py_truediv_error:
  assumes "\<not> num_is_zero s" "py_truediv d s = Inl e"
  shows "e = OverflowError"
proof (cases d)
  case d: (PyInt a)
  show ?thesis
  proof (cases s)
    case (PyInt b)
    with d assms show ?thesis
      by (auto dest: int_truediv_error)
  next
    case (PyFloat y)
    with d assms show ?thesis
      by (auto split: sum.splits dest: int_to_float_error float_truediv_Inl)
  qed
next
  case d: (PyFloat x)
  show ?thesis
  proof (cases s)
    case (PyInt b)
    with d assms show ?thesis
      by (auto split: sum.splits dest: int_to_float_error float_truediv_Inl
          simp: int_to_float_zero_iff)
  next
    case (PyFloat y)
    with d assms show ?thesis
      by (auto dest: float_truediv_Inl)
  qed
qed

section \<open>The shape of a call\<close>

lemma simulate_wetness_value:
  assumes "py_truediv d s = Inr t" "int_to_float r = Inr R" "num_to_float d = Inr x"
  shows "simulate_wetness s d r =
    Inr (float_add (float_mul (float_mul R top_area) t)
                   (float_mul (float_mul R front_area) x))"
  using assms
  by (simp add: simulate_wetness_def int_mul_float_def float_mul_num_eq Let_def)

lemma simulate_wetness_Inr:
  assumes "simulate_wetness s d r = Inr w"
  obtains t R x where "py_truediv d s = Inr t" "int_to_float r = Inr (Finite R)"
    "num_to_float d = Inr x"
    "w = float_add (float_mul (float_mul (Finite R) top_area) t)
                   (float_mul (float_mul (Finite R) front_area) x)"
proof -
  from assms obtain t where t: "py_truediv d s = Inr t"
    by (cases "py_truediv d s") (simp_all add: simulate_wetness_def)
  from assms t obtain R where R: "int_to_float r = Inr (Finite R)"
    by (cases r rule: int_to_float_cases)
       (simp_all add: simulate_wetness_def int_mul_float_def)
  from assms t R obtain x where x: "num_to_float d = Inr x"
    by (cases "num_to_float d")
       (simp_all add: simulate_wetness_def int_mul_float_def float_mul_num_eq Let_def)
  from assms have "w = float_add (float_mul (float_mul (Finite R) top_area) t)
                   (float_mul (float_mul (Finite R) front_area) x)"
    by (simp add: simulate_wetness_value [OF t R x])
  with t R x show ?thesis
    by (rule that)
qed

lemma simulate_wetness_Inl:
  assumes "simulate_wetness s d r = Inl e"
  shows "py_truediv d s = Inl e \<or> e = OverflowError"
proof (cases "py_truediv d s")
  case (Inl e')
  with assms show ?thesis
    by (simp add: simulate_wetness_def)
next
  case t: (Inr t)
  show ?thesis
  proof (cases "int_to_float r")
    case (Inl e')
    with assms t have "e = e'"
      by (simp add: simulate_wetness_def int_mul_float_def)
    with Inl show ?thesis
      by (auto dest: int_to_float_error)
  next
    case R: (Inr R)
    show ?thesis
    proof (cases "num_to_float d")
      case (Inl e')
      with assms t R have "e = e'"
        by (simp add: simulate_wetness_def int_mul_float_def float_mul_num_eq Let_def)
      with Inl show ?thesis
        by (auto dest: num_to_float_error)
    next
      case (Inr x)
      with assms t R show ?thesis
        by (simp add: simulate_wetness_value)
    qed
  qed
qed

lemma simulate_wetness_error:
  assumes "\<not> num_is_zero s" "simulate_wetness s d r = Inl e"
  shows "e = OverflowError"
  using simulate_wetness_Inl [OF assms(2)] py_truediv_error [OF assms(1)] by blast

lemma simulate_wetness_overflow_density:
  assumes "int_to_float r = Inl OverflowError" "py_truediv d s = Inr t"
  shows "simulate_wetness s d r = Inl OverflowError"
  using assms by (simp add: simulate_wetness_def int_mul_float_def)

lemma simulate_wetness_overflow_distance:
  assumes "num_to_float d = Inl OverflowError" "py_truediv d s = Inr t" "int_to_float r = Inr R"
  shows "simulate_wetness s d r = Inl OverflowError"
  using assms by (simp add: simulate_wetness_def int_mul_float_def float_mul_num_eq Let_def)

lemma py_truediv_floats:
  assumes "s \<noteq> Finite 0"
  shows "py_truediv (PyFloat d) (PyFloat s) = Inr (float_div d s)"
  using assms by (simp add: float_truediv_def)

lemma py_truediv_int_float:
  assumes "s \<noteq> Finite 0" "int_to_float n = Inr d"
  shows "py_truediv (PyInt n) (PyFloat s) = Inr (float_div d s)"
  using assms by (simp add: float_truediv_def)

lemma simulate_wetness_floats:
  assumes "s \<noteq> Finite 0" "int_to_float r = Inr R"
  shows "simulate_wetness (PyFloat s) (PyFloat d) r =
    Inr (float_add (float_mul (float_mul R top_area) (float_div d s))
                   (float_mul (float_mul R front_area) d))"
  by (rule simulate_wetness_value [OF py_truediv_floats [OF assms(1)] assms(2)]) simp

lemma simulate_wetness_float_int:
  assumes "s \<noteq> Finite 0" "int_to_float r = Inr R" "int_to_float n = Inr d"
  shows "simulate_wetness (PyFloat s) (PyInt n) r =
    Inr (float_add (float_mul (float_mul R top_area) (float_div d s))
                   (float_mul (float_mul R front_area) d))"
  by (rule simulate_wetness_value [OF py_truediv_int_float [OF assms(1,3)] assms(2)])
     (simp add: assms(3))

lemma reference_wetness_value:
  assumes "py_truediv d s = Inr t" "int_to_float r = Inr R" "num_to_float d = Inr x"
  shows "reference_wetness s d r =
    Inr (float_add (float_mul (float_mul R top_area) t)
                   (float_mul (float_mul R front_area) x))"
  using assms
  by (simp add: reference_wetness_def int_mul_float_def float_mul_num_eq top_area_def
      front_area_def height_def width_def depth_def)

lemma front_impact_value:
  assumes "int_to_float r = Inr R" "num_to_float d = Inr x"
  shows "front_impact d r = Inr (float_mul (float_mul R front_area) x)"
  using assms
  by (simp add: front_impact_def int_mul_float_def float_mul_num_eq front_area_def height_def
      width_def)

lemma above_impact_value:
  assumes "py_truediv d s = Inr t" "int_to_float r = Inr R"
  shows "above_impact s d r = Inr (float_mul (float_mul R top_area) t)"
  using assms
  by (simp add: above_impact_def int_mul_float_def top_area_def width_def depth_def)

lemma int_to_float_500: "int_to_float 500 = Inr (Finite 500)"
  by (simp add: int_to_float_def round_eval float_exponent_eq [where e = 8])

lemma int_to_float_1000: "int_to_float 1000 = Inr (Finite 1000)"
  by (simp add: int_to_float_def round_eval float_exponent_eq [where e = 9])

lemma int_to_float_1: "int_to_float 1 = Inr (Finite 1)"
  by (simp add: int_to_float_def round_to_double_1)

section \<open>Values at the example speeds\<close>

lemma width_value: "width = (Finite (7505999378950827 / 4503599627370496))"
  unfolding width_def by (simp add: round_eval float_exponent_eq [where e = "0"])

lemma depth_value: "depth = (Finite 1)"
  unfolding depth_def by (simp add: round_eval float_exponent_eq [where e = "0"])

lemma height_value: "height = (Finite (6567749456581973 / 1125899906842624))"
  unfolding height_def by (simp add: round_eval float_exponent_eq [where e = "2"])

lemma top_area_value: "top_area = (Finite (7505999378950827 / 4503599627370496))"
  unfolding top_area_def width_value depth_value float_mul.simps
  by (simp add: round_eval float_exponent_eq [where e = "0"])

lemma front_area_value: "front_area = (Finite (1368281136787911 / 140737488355328))"
  unfolding front_area_def height_value width_value float_mul.simps
  by (simp add: round_eval float_exponent_eq [where e = "3"])

lemma speed_3_3: "round_to_double (33 / 10) = (Finite (3715469692580659 / 1125899906842624))"
  by (simp add: round_eval float_exponent_eq [where e = "1"])

lemma wetness_at_3_3:
  "simulate_wetness (PyFloat (Finite (3715469692580659 / 1125899906842624))) (PyInt 500) 1000
      = Inr (Finite (5490725236363635 / 1073741824))"
proof -
  have nz: "(Finite (3715469692580659 / 1125899906842624)) \<noteq> Finite 0"
    by simp
  have c: "int_to_float 1000 = Inr (Finite 1000)"
    by (simp add: int_to_float_def round_eval float_exponent_eq [where e = "9"])
  have t: "float_div (Finite 500) (Finite (3715469692580659 / 1125899906842624))
      = (Finite (5330965468004849 / 35184372088832))"
    by (simp add: round_eval float_exponent_eq [where e = "7"])
  have a: "float_mul (Finite 1000) top_area = (Finite (7330077518506667 / 4398046511104))"
    by (simp add: top_area_value round_eval float_exponent_eq [where e = "10"])
  have ra: "float_mul (Finite (7330077518506667 / 4398046511104)) (Finite (5330965468004849 / 35184372088832))
      = (Finite (8676701608080809 / 34359738368))"
    by (simp add: round_eval float_exponent_eq [where e = "17"])
  have f: "float_mul (Finite 1000) front_area = (Finite (5344848190577777 / 549755813888))"
    by (simp add: front_area_value round_eval float_exponent_eq [where e = "13"])
  have rf: "float_mul (Finite (5344848190577777 / 549755813888)) (Finite 500)
      = (Finite (2609789155555555 / 536870912))"
    by (simp add: round_eval float_exponent_eq [where e = "22"])
  have w: "float_add (Finite (8676701608080809 / 34359738368)) (Finite (2609789155555555 / 536870912))
      = (Finite (5490725236363635 / 1073741824))"
    by (simp add: round_eval float_exponent_eq [where e = "22"])
  show ?thesis
    by (simp only: simulate_wetness_float_int [OF nz c int_to_float_500] t a ra f rf w)
qed

lemma speed_5_5: "round_to_double (55 / 10) = (Finite (11 / 2))"
  by (simp add: round_eval float_exponent_eq [where e = "2"])

lemma wetness_at_5_5:
  "simulate_wetness (PyFloat (Finite (11 / 2))) (PyInt 500) 1000
      = Inr (Finite (5382266466262625 / 1073741824))"
proof -
  have nz: "(Finite (11 / 2)) \<noteq> Finite 0"
    by simp
  have c: "int_to_float 1000 = Inr (Finite 1000)"
    by (simp add: int_to_float_def round_eval float_exponent_eq [where e = "9"])
  have t: "float_div (Finite 500) (Finite (11 / 2)) = (Finite (3198579280802909 / 35184372088832))"
    by (simp add: round_eval float_exponent_eq [where e = "6"])
  have a: "float_mul (Finite 1000) top_area = (Finite (7330077518506667 / 4398046511104))"
    by (simp add: top_area_value round_eval float_exponent_eq [where e = "10"])
  have ra: "float_mul (Finite (7330077518506667 / 4398046511104)) (Finite (3198579280802909 / 35184372088832))
      = (Finite (5206020964848485 / 34359738368))"
    by (simp add: round_eval float_exponent_eq [where e = "17"])
  have f: "float_mul (Finite 1000) front_area = (Finite (5344848190577777 / 549755813888))"
    by (simp add: front_area_value round_eval float_exponent_eq [where e = "13"])
  have rf: "float_mul (Finite (5344848190577777 / 549755813888)) (Finite 500)
      = (Finite (2609789155555555 / 536870912))"
    by (simp add: round_eval float_exponent_eq [where e = "22"])
  have w: "float_add (Finite (5206020964848485 / 34359738368)) (Finite (2609789155555555 / 536870912))
      = (Finite (5382266466262625 / 1073741824))"
    by (simp add: round_eval float_exponent_eq [where e = "22"])
  show ?thesis
    by (simp only: simulate_wetness_float_int [OF nz c int_to_float_500] t a ra f rf w)
qed

lemma speed_8_8: "round_to_double (88 / 10) = (Finite (2476979795053773 / 281474976710656))"
  by (simp add: round_eval float_exponent_eq [where e = "3"])

lemma wetness_at_8_8:
  "simulate_wetness (PyFloat (Finite (2476979795053773 / 281474976710656))) (PyInt 500) 1000
      = Inr (Finite (5321258408080807 / 1073741824))"
proof -
  have nz: "(Finite (2476979795053773 / 281474976710656)) \<noteq> Finite 0"
    by simp
  have c: "int_to_float 1000 = Inr (Finite 1000)"
    by (simp add: int_to_float_def round_eval float_exponent_eq [where e = "9"])
  have t: "float_div (Finite 500) (Finite (2476979795053773 / 281474976710656))
      = (Finite (999556025250909 / 17592186044416))"
    by (simp add: round_eval float_exponent_eq [where e = "5"])
  have a: "float_mul (Finite 1000) top_area = (Finite (7330077518506667 / 4398046511104))"
    by (simp add: top_area_value round_eval float_exponent_eq [where e = "10"])
  have ra: "float_mul (Finite (7330077518506667 / 4398046511104)) (Finite (999556025250909 / 17592186044416))
      = (Finite (3253763103030303 / 34359738368))"
    by (simp add: round_eval float_exponent_eq [where e = "16"])
  have f: "float_mul (Finite 1000) front_area = (Finite (5344848190577777 / 549755813888))"
    by (simp add: front_area_value round_eval float_exponent_eq [where e = "13"])
  have rf: "float_mul (Finite (5344848190577777 / 549755813888)) (Finite 500)
      = (Finite (2609789155555555 / 536870912))"
    by (simp add: round_eval float_exponent_eq [where e = "22"])
  have w: "float_add (Finite (3253763103030303 / 34359738368)) (Finite (2609789155555555 / 536870912))
      = (Finite (5321258408080807 / 1073741824))"
    by (simp add: round_eval float_exponent_eq [where e = "22"])
  show ?thesis
    by (simp only: simulate_wetness_float_int [OF nz c int_to_float_500] t a ra f rf w)
qed

lemma speed_13_2: "round_to_double (132 / 10) = (Finite (3715469692580659 / 281474976710656))"
  by (simp add: round_eval float_exponent_eq [where e = "3"])

lemma wetness_at_13_2:
  "simulate_wetness (PyFloat (Finite (3715469692580659 / 281474976710656))) (PyInt 500) 1000
      = Inr (Finite (5287365042424241 / 1073741824))"
proof -
  have nz: "(Finite (3715469692580659 / 281474976710656)) \<noteq> Finite 0"
    by simp
  have c: "int_to_float 1000 = Inr (Finite 1000)"
    by (simp add: int_to_float_def round_eval float_exponent_eq [where e = "9"])
  have t: "float_div (Finite 500) (Finite (3715469692580659 / 281474976710656))
      = (Finite (5330965468004849 / 140737488355328))"
    by (simp add: round_eval float_exponent_eq [where e = "5"])
  have a: "float_mul (Finite 1000) top_area = (Finite (7330077518506667 / 4398046511104))"
    by (simp add: top_area_value round_eval float_exponent_eq [where e = "10"])
  have ra: "float_mul (Finite (7330077518506667 / 4398046511104)) (Finite (5330965468004849 / 140737488355328))
      = (Finite (8676701608080809 / 137438953472))"
    by (simp add: round_eval float_exponent_eq [where e = "15"])
  have f: "float_mul (Finite 1000) front_area = (Finite (5344848190577777 / 549755813888))"
    by (simp add: front_area_value round_eval float_exponent_eq [where e = "13"])
  have rf: "float_mul (Finite (5344848190577777 / 549755813888)) (Finite 500)
      = (Finite (2609789155555555 / 536870912))"
    by (simp add: round_eval float_exponent_eq [where e = "22"])
  have w: "float_add (Finite (8676701608080809 / 137438953472)) (Finite (2609789155555555 / 536870912))
      = (Finite (5287365042424241 / 1073741824))"
    by (simp add: round_eval float_exponent_eq [where e = "22"])
  show ?thesis
    by (simp only: simulate_wetness_float_int [OF nz c int_to_float_500] t a ra f rf w)
qed

lemma speed_30: "round_to_double (30) = (Finite 30)"
  by (simp add: round_eval float_exponent_eq [where e = "4"])

lemma wetness_at_30:
  "simulate_wetness (PyFloat (Finite 30)) (PyInt 500) 1000 = Inr (Finite (656175559111111 / 134217728))"
proof -
  have nz: "(Finite 30) \<noteq> Finite 0"
    by simp
  have c: "int_to_float 1000 = Inr (Finite 1000)"
    by (simp add: int_to_float_def round_eval float_exponent_eq [where e = "9"])
  have t: "float_div (Finite 500) (Finite 30) = (Finite (4691249611844267 / 281474976710656))"
    by (simp add: round_eval float_exponent_eq [where e = "4"])
  have a: "float_mul (Finite 1000) top_area = (Finite (7330077518506667 / 4398046511104))"
    by (simp add: top_area_value round_eval float_exponent_eq [where e = "10"])
  have ra: "float_mul (Finite (7330077518506667 / 4398046511104)) (Finite (4691249611844267 / 281474976710656))
      = (Finite (954437176888889 / 34359738368))"
    by (simp add: round_eval float_exponent_eq [where e = "14"])
  have f: "float_mul (Finite 1000) front_area = (Finite (5344848190577777 / 549755813888))"
    by (simp add: front_area_value round_eval float_exponent_eq [where e = "13"])
  have rf: "float_mul (Finite (5344848190577777 / 549755813888)) (Finite 500)
      = (Finite (2609789155555555 / 536870912))"
    by (simp add: round_eval float_exponent_eq [where e = "22"])
  have w: "float_add (Finite (954437176888889 / 34359738368)) (Finite (2609789155555555 / 536870912))
      = (Finite (656175559111111 / 134217728))"
    by (simp add: round_eval float_exponent_eq [where e = "22"])
  show ?thesis
    by (simp only: simulate_wetness_float_int [OF nz c int_to_float_500] t a ra f rf w)
qed

section \<open>Signs and finiteness of the intermediate values\<close>

lemma float_le_zero_iff:
  "float_le (Finite 0) x \<longleftrightarrow> (\<exists>a. x = Finite a \<and> 0 \<le> a) \<or> x
      = PosInf"
  by (cases x) auto

lemma float_lt_zero_iff:
  "float_lt (Finite 0) x \<longleftrightarrow> (\<exists>a. x = Finite a \<and> 0 < a) \<or> x
      = PosInf"
  by (cases x) auto

lemma float_le_not_NaN: "float_le x y \<Longrightarrow> x \<noteq> NaN \<and> y \<noteq> NaN"
  by (cases x; cases y) auto

lemma nonneg_or_nan_round: "0 \<le> x \<Longrightarrow> nonneg_or_nan (round_to_double x)"
  by (simp add: nonneg_or_nan_def round_to_double_nonneg)

lemma nonneg_or_nan_mul:
  assumes "nonneg_or_nan x" "nonneg_or_nan y"
  shows "nonneg_or_nan (float_mul x y)"
proof (cases "x = NaN \<or> y = NaN")
  case True
  then show ?thesis by (cases x; cases y) (auto simp: nonneg_or_nan_def)
next
  case False
  with assms have "float_le (Finite 0) x" "float_le (Finite 0) y"
    by (auto simp: nonneg_or_nan_def)
  then consider a b where "x = Finite a" "y = Finite b" "0 \<le> a" "0 \<le> b"
    | a where "x = Finite a" "y = PosInf" "0 \<le> a"
    | b where "x = PosInf" "y = Finite b" "0 \<le> b"
    | "x = PosInf" "y = PosInf"
    by (auto simp: float_le_zero_iff)
  then show ?thesis
  proof cases
    case 1
    then show ?thesis by (simp add: nonneg_or_nan_round)
  qed (auto simp: nonneg_or_nan_def)
qed

lemma nonneg_or_nan_add:
  assumes "nonneg_or_nan x" "nonneg_or_nan y"
  shows "nonneg_or_nan (float_add x y)"
proof (cases "x = NaN \<or> y = NaN")
  case True
  then show ?thesis by (cases x; cases y) (auto simp: nonneg_or_nan_def)
next
  case False
  with assms have "float_le (Finite 0) x" "float_le (Finite 0) y"
    by (auto simp: nonneg_or_nan_def)
  then consider a b where "x = Finite a" "y = Finite b" "0 \<le> a" "0 \<le> b"
    | a where "x = Finite a" "y = PosInf"
    | b where "x = PosInf" "y = Finite b"
    | "x = PosInf" "y = PosInf"
    by (auto simp: float_le_zero_iff)
  then show ?thesis
  proof cases
    case 1
    then show ?thesis by (simp add: nonneg_or_nan_round)
  qed (auto simp: nonneg_or_nan_def)
qed

lemma nonneg_or_nan_div:
  assumes "float_lt (Finite 0) s" "float_le (Finite 0) d"
  shows "nonneg_or_nan (float_div d s)"
proof -
  from assms consider a b where "d = Finite a" "s = Finite b" "0 \<le> a" "0 < b"
    | a where "d = Finite a" "s = PosInf"
    | b where "d = PosInf" "s = Finite b" "0 < b"
    | "d = PosInf" "s = PosInf"
    by (auto simp: float_le_zero_iff float_lt_zero_iff)
  then show ?thesis
  proof cases
    case 1
    then show ?thesis by (simp add: nonneg_or_nan_round)
  qed (auto simp: nonneg_or_nan_def)
qed

lemma nonneg_or_nan_areas: "nonneg_or_nan top_area" "nonneg_or_nan front_area"
  by (simp_all add: top_area_value front_area_value nonneg_or_nan_def)

lemma int_to_float_nonneg:
  assumes "0 \<le> r" "int_to_float r = Inr R"
  shows "nonneg_or_nan R"
proof -
  have "nonneg_or_nan (round_to_double (of_int r))"
    using assms(1) by (intro nonneg_or_nan_round) simp
  with assms(2) show ?thesis
    by (auto simp: int_to_float_def split: pyfloat.splits)
qed

lemma wetness_nonneg_or_nan:
  assumes "nonneg_or_nan t" "nonneg_or_nan x" "0 \<le> r" "int_to_float r = Inr R"
  shows "nonneg_or_nan (float_add (float_mul (float_mul R top_area) t)
                                  (float_mul (float_mul R front_area) x))"
  by (intro nonneg_or_nan_add nonneg_or_nan_mul nonneg_or_nan_areas
      int_to_float_nonneg [OF assms(3,4)] assms(1,2))

lemma round_to_double_bounded:
  assumes "\<bar>x\<bar> \<le> B" "round_to_double B = Finite B'"
  obtains y where "round_to_double x = Finite y" "\<bar>y\<bar> \<le> B'"
proof -
  have "float_le (round_to_double x) (round_to_double B)"
    using assms(1) by (intro round_to_double_mono) simp
  then have up: "float_le (round_to_double x) (Finite B')"
    by (simp only: assms(2))
  have "float_le (round_to_double (- B)) (round_to_double x)"
    using assms(1) by (intro round_to_double_mono) (simp add: abs_le_iff)
  then have lo: "float_le (Finite (- B')) (round_to_double x)"
    by (simp add: round_to_double_minus assms(2))
  from up lo show ?thesis
    by (cases "round_to_double x") (auto intro: that)
qed

lemma round_to_double_nonneg_finite:
  assumes "0 \<le> x" "round_to_double x = Finite y"
  shows "0 \<le> y"
  using round_to_double_nonneg [OF assms(1)] by (simp add: assms(2))

lemma round_pow_1020: "round_to_double (2 ^ 1020) = Finite (2 ^ 1020)"
  by (simp add: round_eval float_exponent_eq [where e = 1020])

lemma round_top_1020:
  "round_to_double (2 ^ 1020 * (7505999378950827 / 4503599627370496))
      = Finite (2 ^ 1020 * (7505999378950827 / 4503599627370496))"
  by (simp add: round_eval float_exponent_eq [where e = 1020])

lemma round_front_1020:
  "round_to_double (2 ^ 1020 * (1368281136787911 / 140737488355328))
      = Finite (2 ^ 1020 * (1368281136787911 / 140737488355328))"
  by (simp add: round_eval float_exponent_eq [where e = 1023])

lemma round_product_bounded:
  assumes "\<bar>a\<bar> \<le> B" "0 \<le> c" "round_to_double (B * c) = Finite M"
  obtains y where "round_to_double (a * c) = Finite y" "\<bar>y\<bar> \<le> M"
proof -
  have "\<bar>a\<bar> * c \<le> B * c"
    using assms(1,2) by (rule mult_right_mono)
  moreover have "\<bar>a * c\<bar> = \<bar>a\<bar> * c"
    using assms(2) by (simp add: abs_mult)
  ultimately have "\<bar>a * c\<bar> \<le> B * c"
    by simp
  then show ?thesis
    using assms(3) that by (rule round_to_double_bounded)
qed

lemma rates_finite:
  assumes "\<bar>r\<bar> \<le> 2 ^ 1020"
  obtains R A F where "int_to_float r = Inr (Finite R)"
    "float_mul (Finite R) top_area = Finite A"
    "float_mul (Finite R) front_area = Finite F"
    "0 \<le> r \<Longrightarrow> 0 \<le> R \<and> 0 \<le> A \<and> 0 \<le> F"
proof -
  have "(of_int \<bar>r\<bar> :: rat) \<le> of_int (2 ^ 1020)"
    using assms by (simp only: of_int_le_iff)
  then have "\<bar>of_int r :: rat\<bar> \<le> 2 ^ 1020"
    by (simp only: of_int_abs of_int_power of_int_numeral)
  then obtain R where R: "round_to_double (of_int r) = Finite R" "\<bar>R\<bar> \<le> 2 ^ 1020"
    using round_pow_1020 by (rule round_to_double_bounded)
  have top: "(0::rat) \<le> (7505999378950827 / 4503599627370496)"
    by simp
  obtain A where A: "round_to_double (R * (7505999378950827 / 4503599627370496)) = Finite A"
    using R(2) top round_top_1020 by (rule round_product_bounded)
  have front: "(0::rat) \<le> (1368281136787911 / 140737488355328)"
    by simp
  obtain F where F: "round_to_double (R * (1368281136787911 / 140737488355328)) = Finite F"
    using R(2) front round_front_1020 by (rule round_product_bounded)
  have pos: "0 \<le> R \<and> 0 \<le> A \<and> 0 \<le> F" if "0 \<le> r"
  proof -
    have "(0::rat) \<le> of_int r"
      using that by simp
    then have 1: "0 \<le> R"
      using R(1) by (rule round_to_double_nonneg_finite)
    then have "0 \<le> R * (7505999378950827 / 4503599627370496)"
      by simp
    then have 2: "0 \<le> A"
      using A by (rule round_to_double_nonneg_finite)
    from 1 have "0 \<le> R * (1368281136787911 / 140737488355328)"
      by simp
    then have 3: "0 \<le> F"
      using F by (rule round_to_double_nonneg_finite)
    from 1 2 3 show ?thesis
      by simp
  qed
  show ?thesis
  proof (rule that [of R A F])
    show "int_to_float r = Inr (Finite R)"
      by (simp add: int_to_float_def R(1))
    show "float_mul (Finite R) top_area = Finite A"
      by (simp only: top_area_value float_mul.simps A)
    show "float_mul (Finite R) front_area = Finite F"
      by (simp only: front_area_value float_mul.simps F)
    show "0 \<le> R \<and> 0 \<le> A \<and> 0 \<le> F" if "0 \<le> r"
      using that by (rule pos)
  qed
qed

section \<open>Monotonicity of the float operations\<close>

lemma float_mul_representable:
  assumes "float_mul x y = Finite z"
  shows "round_to_double z = Finite z"
  using assms
  by (cases x; cases y) (auto intro: round_to_double_idem split: if_splits)

lemma float_le_add_right:
  assumes "nonneg_or_nan x" "float_add x y \<noteq> NaN"
    and "\<And>b. y = Finite b \<Longrightarrow> round_to_double b = Finite b"
  shows "float_le y (float_add x y)"
proof (cases y)
  case (Finite b)
  from assms(1,2) consider a where "x = Finite a" "0 \<le> a" | "x = PosInf"
    by (auto simp: nonneg_or_nan_def float_le_zero_iff)
  then show ?thesis
  proof cases
    case 1
    have "float_le (round_to_double b) (round_to_double (a + b))"
      using 1(2) by (intro round_to_double_mono) simp
    then show ?thesis
      by (simp add: Finite 1(1) assms(3) [OF Finite])
  next
    case 2
    then show ?thesis by (simp add: Finite)
  qed
next
  case PosInf
  with assms(1,2) show ?thesis
    by (cases x) (auto simp: nonneg_or_nan_def)
next
  case NegInf
  with assms(1,2) show ?thesis
    by (cases x) (auto simp: nonneg_or_nan_def)
next
  case NaN
  with assms(2) show ?thesis
    by (cases x) auto
qed






section \<open>The closed form\<close>

text \<open>
  Claim C1. For every speed \<open>s\<close> other than zero, every distance \<open>d\<close> and every density \<open>r\<close>,
  \<open>simulate_wetness s d r\<close> is what the closed-form expression
  \<open>r * (20/12 * 12/12) * (d / s) + r * (70/12 * 20/12) * d\<close> evaluates to: the same float, or
  the same exception. The speed and the distance may each be an int or a float.
\<close>

theorem simulate_wetness_eq_reference:
  assumes "\<not> num_is_zero s"
  shows "simulate_wetness s d r = reference_wetness s d r"
proof (cases "py_truediv d s")
  case (Inl e)
  with assms have e: "e = OverflowError"
    by (rule py_truediv_error)
  show ?thesis
  proof (cases "int_to_float r")
    case R: (Inl e')
    then have "e' = OverflowError"
      by (rule int_to_float_error)
    with Inl e R show ?thesis
      by (simp add: simulate_wetness_def reference_wetness_def int_mul_float_def)
  next
    case (Inr R)
    with Inl show ?thesis
      by (simp add: simulate_wetness_def reference_wetness_def int_mul_float_def)
  qed
next
  case t: (Inr t)
  show ?thesis
  proof (cases "int_to_float r")
    case (Inl e')
    with t show ?thesis
      by (simp add: simulate_wetness_def reference_wetness_def int_mul_float_def)
  next
    case R: (Inr R)
    show ?thesis
    proof (cases "num_to_float d")
      case (Inl e')
      with t R show ?thesis
        by (simp add: simulate_wetness_def reference_wetness_def int_mul_float_def
            float_mul_num_eq Let_def)
    next
      case (Inr x)
      with t R show ?thesis
        by (simp only: simulate_wetness_value reference_wetness_value)
    qed
  qed
qed

theorem simulate_wetness_eq_reference_witness:
  "\<not> num_is_zero (PyFloat (Finite 1)) \<and>
   simulate_wetness (PyFloat (Finite 1)) (PyInt 500) 1000
     = reference_wetness (PyFloat (Finite 1)) (PyInt 500) 1000"
  using simulate_wetness_eq_reference [of "PyFloat (Finite 1)" "PyInt 500" 1000] by simp

section \<open>Failure modes\<close>

lemma py_truediv_error_cases:
  "py_truediv d s = Inl e \<Longrightarrow> e = ZeroDivisionError \<or> e = OverflowError"
  by (cases d; cases s)
     (auto split: sum.splits dest: int_truediv_error int_to_float_error float_truediv_Inl)

lemma py_truediv_zero_division_iff:
  "py_truediv d s = Inl ZeroDivisionError \<longleftrightarrow> num_is_zero s \<and> (is_int s \<or> num_fits d)"
proof (cases d)
  case d: (PyInt a)
  show ?thesis
  proof (cases s)
    case (PyInt b)
    with d show ?thesis
      by (auto simp: int_truediv_def split: pyfloat.splits)
  next
    case s: (PyFloat y)
    show ?thesis
    proof (cases a rule: int_to_float_cases)
      case overflow
      then have "\<not> int_fits a"
        using int_to_float_Inr_iff [of a] by simp
      with overflow d s show ?thesis
        by simp
    next
      case (finite q)
      then have "int_fits a"
        using int_to_float_Inr_iff [of a] by simp
      with finite(1) d s show ?thesis
        by (simp add: float_truediv_def)
    qed
  qed
next
  case d: (PyFloat x)
  show ?thesis
  proof (cases s)
    case s: (PyInt b)
    show ?thesis
    proof (cases b rule: int_to_float_cases)
      case overflow
      then have "b \<noteq> 0"
        using int_to_float_0 by auto
      with overflow d s show ?thesis
        by simp
    next
      case (finite q)
      have "q = 0 \<longleftrightarrow> b = 0"
        using int_to_float_zero_iff [of b] finite(1) by simp
      with finite(1) d s show ?thesis
        by (simp add: float_truediv_def)
    qed
  next
    case (PyFloat y)
    with d show ?thesis
      by (simp add: float_truediv_def)
  qed
qed

lemma py_truediv_returns_iff:
  "(\<exists>t. py_truediv d s = Inr t) \<longleftrightarrow>
     \<not> num_is_zero s \<and> (is_int d \<and> is_int s \<or> num_fits d \<and> num_fits s) \<and> quotient_fits d s"
proof (cases d)
  case d: (PyInt a)
  show ?thesis
  proof (cases s)
    case (PyInt b)
    with d show ?thesis
      by (simp add: int_truediv_Inr_iff powi_bound)
  next
    case s: (PyFloat y)
    show ?thesis
    proof (cases a rule: int_to_float_cases)
      case overflow
      then have "\<not> int_fits a"
        using int_to_float_Inr_iff [of a] by simp
      with overflow d s show ?thesis
        by simp
    next
      case (finite q)
      then have "int_fits a"
        using int_to_float_Inr_iff [of a] by simp
      with finite(1) d s show ?thesis
        by (simp add: float_truediv_def)
    qed
  qed
next
  case d: (PyFloat x)
  show ?thesis
  proof (cases s)
    case s: (PyInt b)
    show ?thesis
    proof (cases b rule: int_to_float_cases)
      case overflow
      then have "\<not> int_fits b"
        using int_to_float_Inr_iff [of b] by simp
      with overflow d s show ?thesis
        by simp
    next
      case (finite q)
      then have "int_fits b"
        using int_to_float_Inr_iff [of b] by simp
      moreover have "q = 0 \<longleftrightarrow> b = 0"
        using int_to_float_zero_iff [of b] finite(1) by simp
      ultimately show ?thesis
        using finite(1) d s by (simp add: float_truediv_def)
    qed
  next
    case (PyFloat y)
    with d show ?thesis
      by (simp add: float_truediv_def)
  qed
qed

lemma simulate_wetness_zero_division_iff:
  "simulate_wetness s d r = Inl ZeroDivisionError \<longleftrightarrow> py_truediv d s = Inl ZeroDivisionError"
proof
  assume "simulate_wetness s d r = Inl ZeroDivisionError"
  from simulate_wetness_Inl [OF this] show "py_truediv d s = Inl ZeroDivisionError"
    by simp
next
  assume "py_truediv d s = Inl ZeroDivisionError"
  then show "simulate_wetness s d r = Inl ZeroDivisionError"
    by (simp add: simulate_wetness_def)
qed

lemma simulate_wetness_returns_iff:
  "(\<exists>w. simulate_wetness s d r = Inr w) \<longleftrightarrow>
     (\<exists>t. py_truediv d s = Inr t) \<and> int_fits r \<and> num_fits d"
proof
  assume "\<exists>w. simulate_wetness s d r = Inr w"
  then obtain w where "simulate_wetness s d r = Inr w" ..
  then obtain t R x where "py_truediv d s = Inr t" "int_to_float r = Inr (Finite R)"
    "num_to_float d = Inr x"
    by (rule simulate_wetness_Inr)
  then show "(\<exists>t. py_truediv d s = Inr t) \<and> int_fits r \<and> num_fits d"
    using int_to_float_Inr_iff [of r] num_to_float_Inr_iff [of d] by auto
next
  assume "(\<exists>t. py_truediv d s = Inr t) \<and> int_fits r \<and> num_fits d"
  then obtain t R x where "py_truediv d s = Inr t" "int_to_float r = Inr R"
    "num_to_float d = Inr x"
    using int_to_float_Inr_iff [of r] num_to_float_Inr_iff [of d] by auto
  then show "\<exists>w. simulate_wetness s d r = Inr w"
    by (simp add: simulate_wetness_value)
qed

lemma simulate_wetness_outcomes:
  "simulate_wetness s d r = Inl ZeroDivisionError \<or>
   simulate_wetness s d r = Inl OverflowError \<or> (\<exists>w. simulate_wetness s d r = Inr w)"
proof (cases "simulate_wetness s d r")
  case (Inl e)
  from simulate_wetness_Inl [OF this] py_truediv_error_cases [of d s e]
  have "e = ZeroDivisionError \<or> e = OverflowError"
    by blast
  with Inl show ?thesis
    by auto
next
  case (Inr w)
  then show ?thesis
    by simp
qed

text \<open>
  The claim that a zero speed is the only failure fails for a density beyond the range of
  a double: with speed 1 the call raises \<open>OverflowError\<close> at \<open>rain_density * top_area\<close>.
\<close>

theorem simulate_wetness_overflow_counterexample:
  "\<not> num_is_zero (PyFloat (Finite 1)) \<and>
   simulate_wetness (PyFloat (Finite 1)) (PyInt 500) (2 ^ 1024) = Inl OverflowError"
proof -
  have "int_to_float (2 ^ 1024) = Inl OverflowError"
    by (simp add: int_to_float_overflow_iff)
  moreover have "py_truediv (PyInt 500) (PyFloat (Finite 1))
      = Inr (float_div (Finite 500) (Finite 1))"
    by (rule py_truediv_int_float [OF _ int_to_float_500]) simp
  ultimately have "simulate_wetness (PyFloat (Finite 1)) (PyInt 500) (2 ^ 1024)
      = Inl OverflowError"
    by (rule simulate_wetness_overflow_density)
  then show ?thesis
    by simp
qed

text \<open>
  Claim C4, amended. The speed and the distance may each be an int or a float; an int
  \<^emph>\<open>fits\<close> when its magnitude is below \<open>2 ^ 1024 - 2 ^ 970\<close>, so that it converts to a
  float, and every float fits. \<open>simulate_wetness\<close> raises \<open>ZeroDivisionError\<close> exactly when
  the speed is zero and, if the speed is a float, the distance fits (a float zero speed with
  an int distance that does not fit raises \<open>OverflowError\<close> instead). It returns a float
  exactly when the speed is not zero, the density and the distance fit, the speed fits
  unless the distance is an int, and, when speed and distance are both ints, their exact
  quotient is below \<open>2 ^ 1024 - 2 ^ 970\<close> in magnitude. In every other case it raises
  \<open>OverflowError\<close>, and it raises nothing else.
\<close>

theorem simulate_wetness_faults:
  "(simulate_wetness s d r = Inl ZeroDivisionError \<longleftrightarrow>
      num_is_zero s \<and> (is_int s \<or> num_fits d)) \<and>
   ((\<exists>w. simulate_wetness s d r = Inr w) \<longleftrightarrow>
      \<not> num_is_zero s \<and> int_fits r \<and> num_fits d \<and> (is_int d \<or> num_fits s) \<and>
      quotient_fits d s) \<and>
   (simulate_wetness s d r = Inl OverflowError \<longleftrightarrow>
      \<not> (num_is_zero s \<and> (is_int s \<or> num_fits d)) \<and>
      \<not> (\<not> num_is_zero s \<and> int_fits r \<and> num_fits d \<and> (is_int d \<or> num_fits s) \<and>
         quotient_fits d s))"
proof -
  have z: "simulate_wetness s d r = Inl ZeroDivisionError \<longleftrightarrow>
      num_is_zero s \<and> (is_int s \<or> num_fits d)"
    by (simp only: simulate_wetness_zero_division_iff py_truediv_zero_division_iff)
  have "(is_int d \<and> is_int s \<or> num_fits d \<and> num_fits s) \<and> num_fits d \<longleftrightarrow>
      num_fits d \<and> (is_int d \<or> num_fits s)"
    by (cases d; cases s) auto
  then have v: "(\<exists>w. simulate_wetness s d r = Inr w) \<longleftrightarrow>
      \<not> num_is_zero s \<and> int_fits r \<and> num_fits d \<and> (is_int d \<or> num_fits s) \<and>
      quotient_fits d s"
    unfolding simulate_wetness_returns_iff py_truediv_returns_iff by blast
  have o: "simulate_wetness s d r = Inl OverflowError \<longleftrightarrow>
      \<not> simulate_wetness s d r = Inl ZeroDivisionError \<and>
      \<not> (\<exists>w. simulate_wetness s d r = Inr w)"
    using simulate_wetness_outcomes [of s d r] by auto
  show ?thesis
    using z v o by (simp only: simp_thms)
qed

theorem simulate_wetness_faults_witness:
  "\<exists>w. simulate_wetness (PyFloat (Finite 1)) (PyInt 500) 1000 = Inr w"
  using simulate_wetness_faults [of "PyFloat (Finite 1)" "PyInt 500" 1000]
  by (simp add: int_fits_def)

section \<open>The example scenario and the driver\<close>

text \<open>
  Claim C7. With the default distance 500 and density 1000, \<open>simulate_wetness(3.3)\<close> is the
  double \<open>5490725236363635 / 2 ^ 30\<close> (5113636.363636362...). The Python expression
  \<open>1000*(20/12*12/12)*(500/3.3) + 1000*(70/12*20/12)*500\<close> evaluates to the same double, and
  the double is within \<open>1e-6\<close> of the exact value of that expression.
\<close>

theorem wetness_at_3_3_scenario:
  "simulate_wetness (PyFloat (round_to_double (33 / 10))) (PyInt 500) 1000
     = Inr (Finite (5490725236363635 / 1073741824)) \<and>
   reference_wetness (PyFloat (round_to_double (33 / 10))) (PyInt 500) 1000
     = Inr (Finite (5490725236363635 / 1073741824)) \<and>
   \<bar>5490725236363635 / 1073741824
      - (1000 * (20 / 12 * (12 / 12)) * (500 / (33 / 10)) + 1000 * (70 / 12 * (20 / 12)) * 500)\<bar>
     \<le> (1 / 10 ^ 6 :: rat)"
proof -
  have "simulate_wetness (PyFloat (round_to_double (33 / 10))) (PyInt 500) 1000
      = Inr (Finite (5490725236363635 / 1073741824))"
    by (simp only: speed_3_3 wetness_at_3_3)
  moreover have "reference_wetness (PyFloat (round_to_double (33 / 10))) (PyInt 500) 1000
      = simulate_wetness (PyFloat (round_to_double (33 / 10))) (PyInt 500) 1000"
  proof -
    have nz: "round_to_double (33 / 10) \<noteq> Finite 0"
      by (simp only: speed_3_3) simp
    have t: "py_truediv (PyInt 500) (PyFloat (round_to_double (33 / 10)))
        = Inr (float_div (Finite 500) (round_to_double (33 / 10)))"
      using nz int_to_float_500 by (rule py_truediv_int_float)
    have x: "num_to_float (PyInt 500) = Inr (Finite 500)"
      by (simp add: int_to_float_500)
    show ?thesis
      by (simp only: reference_wetness_value [OF t int_to_float_1000 x]
          simulate_wetness_value [OF t int_to_float_1000 x])
  qed
  moreover have "\<bar>5490725236363635 / 1073741824
      - (1000 * (20 / 12 * (12 / 12)) * (500 / (33 / 10)) + 1000 * (70 / 12 * (20 / 12)) * 500)\<bar>
     \<le> (1 / 10 ^ 6 :: rat)"
    by simp
  ultimately show ?thesis
    by (simp only: simp_thms)
qed

text \<open>
  Claim C6. For the speed list \<open>[3.3, 5.5, 8.8, 13.2, 30.0]\<close> with the default distance and
  density, the driver prints the wetness integers 5113636, 5012626, 4955808, 4924242 and
  4888888, a strictly decreasing sequence in the order of the list.
\<close>

theorem printed_wetness_strictly_decreasing:
  "printed_wetness = Inr [5113636, 5012626, 4955808, 4924242, 4888888] \<and>
   sorted_wrt (\<lambda>x y. y < x) [5113636, 5012626, 4955808, 4924242, 4888888 :: int]"
proof -
  have wv: "wetness_values =
      Inr [Finite (5490725236363635 / 1073741824), Finite (5382266466262625 / 1073741824),
           Finite (5321258408080807 / 1073741824), Finite (5287365042424241 / 1073741824),
           Finite (656175559111111 / 134217728)]"
    unfolding wetness_values_def speeds_def
    by (simp only: speed_3_3 speed_5_5 speed_8_8 speed_13_2 speed_30 comprehension.simps
        wetness_at_3_3 wetness_at_5_5 wetness_at_8_8 wetness_at_13_2 wetness_at_30
        sum.case)
  have "printed_wetness =
      comprehension py_int
        [Finite (5490725236363635 / 1073741824), Finite (5382266466262625 / 1073741824),
         Finite (5321258408080807 / 1073741824), Finite (5287365042424241 / 1073741824),
         Finite (656175559111111 / 134217728)]"
    by (simp only: printed_wetness_def wv sum.case)
  also have "\<dots> = Inr [5113636, 5012626, 4955808, 4924242, 4888888]"
    by (simp add: py_int_def floor_rat_numeral_div)
  finally show ?thesis
    by simp
qed

section \<open>Non-negativity\<close>

lemma num_lt_zero_nonzero: "num_lt (PyInt 0) s \<Longrightarrow> \<not> num_is_zero s"
  by (cases s) (auto simp: num_lt_def)

lemma num_to_float_nonneg:
  assumes "num_le (PyInt 0) d" "num_to_float d = Inr x"
  shows "float_le (Finite 0) x"
proof (cases d)
  case (PyInt n)
  with assms have n: "0 \<le> n" and c: "int_to_float n = Inr x"
    by (simp_all add: num_le_def)
  have "(0::rat) \<le> of_int n"
    using n by simp
  then have "float_le (Finite 0) (round_to_double (of_int n))"
    by (rule round_to_double_nonneg)
  then show ?thesis
    by (simp only: int_to_float_round [OF c])
next
  case (PyFloat y)
  with assms show ?thesis
    by (simp add: num_le_def)
qed

lemma num_to_float_pos:
  assumes "num_lt (PyInt 0) s" "num_to_float s = Inr y"
  shows "float_lt (Finite 0) y"
proof (cases s)
  case (PyInt n)
  with assms have "0 < n" "int_to_float n = Inr y"
    by (simp_all add: num_lt_def)
  then show ?thesis
    by (rule int_to_float_pos)
next
  case (PyFloat z)
  with assms show ?thesis
    by (simp add: num_lt_def)
qed

lemma py_truediv_float_div:
  assumes "py_truediv d s = Inr t" "\<not> (is_int d \<and> is_int s)"
  obtains x y where "num_to_float d = Inr x" "num_to_float s = Inr y" "t = float_div x y"
proof (cases d)
  case d: (PyInt a)
  show ?thesis
  proof (cases s)
    case (PyInt b)
    with d assms(2) show ?thesis
      by simp
  next
    case s: (PyFloat y)
    from assms(1) obtain x where x: "int_to_float a = Inr x"
      by (cases "int_to_float a") (simp_all add: d s)
    with assms(1) have "t = float_div x y"
      by (simp add: d s float_truediv_Inr)
    with x show ?thesis
      using d s by (intro that [of x y]) simp_all
  qed
next
  case d: (PyFloat x)
  show ?thesis
  proof (cases s)
    case s: (PyInt b)
    from assms(1) obtain y where y: "int_to_float b = Inr y"
      by (cases "int_to_float b") (simp_all add: d s)
    with assms(1) have "t = float_div x y"
      by (simp add: d s float_truediv_Inr)
    with y show ?thesis
      using d s by (intro that [of x y]) simp_all
  next
    case s: (PyFloat y)
    from assms(1) have "t = float_div x y"
      by (simp add: d s float_truediv_Inr)
    then show ?thesis
      using d s by (intro that [of x y]) simp_all
  qed
qed

lemma py_truediv_nonneg:
  assumes "num_lt (PyInt 0) s" "num_le (PyInt 0) d" "py_truediv d s = Inr t"
  shows "nonneg_or_nan t"
proof (cases "is_int d \<and> is_int s")
  case True
  then obtain a b where d: "d = PyInt a" and s: "s = PyInt b"
    by (cases d; cases s) auto
  from assms(1,2) have "0 < b" "0 \<le> a"
    by (simp_all add: d s num_lt_def num_le_def)
  then have "(0::rat) \<le> of_int a / of_int b"
    by simp
  then have "nonneg_or_nan (round_to_double (of_int a / of_int b))"
    by (rule nonneg_or_nan_round)
  moreover have "t = round_to_double (of_int a / of_int b)"
    using assms(3) unfolding d s py_truediv.simps by (rule int_truediv_value)
  ultimately show ?thesis
    by simp
next
  case False
  with assms(3) obtain x y where x: "num_to_float d = Inr x" and y: "num_to_float s = Inr y"
    and t: "t = float_div x y"
    by (rule py_truediv_float_div)
  have "float_lt (Finite 0) y"
    using assms(1) y by (rule num_to_float_pos)
  moreover have "float_le (Finite 0) x"
    using assms(2) x by (rule num_to_float_nonneg)
  ultimately show ?thesis
    unfolding t by (rule nonneg_or_nan_div)
qed

lemma float_div_finite_dividend:
  assumes "float_div x y = Finite t" "float_le (Finite 0) x"
  obtains q where "x = Finite q" "0 \<le> q"
  using assms by (cases x; cases y) (auto split: if_splits)

lemma py_truediv_finite_distance:
  assumes "num_le (PyInt 0) d" "py_truediv d s = Inr (Finite t)" "num_to_float d = Inr x"
  obtains q where "x = Finite q" "0 \<le> q"
proof -
  have x: "float_le (Finite 0) x"
    using assms(1,3) by (rule num_to_float_nonneg)
  show ?thesis
  proof (cases d)
    case (PyInt a)
    with assms(3) obtain q where "x = Finite q"
      by (cases a rule: int_to_float_cases) auto
    with x show ?thesis
      by (intro that [of q]) simp_all
  next
    case d: (PyFloat z)
    then have "\<not> (is_int d \<and> is_int s)"
      by simp
    with assms(2) obtain x' y where "num_to_float d = Inr x'" "Finite t = float_div x' y"
      by (rule py_truediv_float_div)
    with assms(3) have "float_div x y = Finite t"
      by simp
    then show ?thesis
      using x that by (rule float_div_finite_dividend)
  qed
qed

lemma wetness_returns:
  assumes "0 \<le> r" "r \<le> 2 ^ 1020" "0 \<le> t" "0 \<le> x"
  obtains R w where "int_to_float r = Inr (Finite R)"
    "float_add (float_mul (float_mul (Finite R) top_area) (Finite t))
               (float_mul (float_mul (Finite R) front_area) (Finite x)) = w"
    "float_le (Finite 0) w"
proof -
  have "\<bar>r\<bar> \<le> 2 ^ 1020"
    using assms(1,2) by simp
  then obtain R A F where R: "int_to_float r = Inr (Finite R)"
    and A: "float_mul (Finite R) top_area = Finite A"
    and F: "float_mul (Finite R) front_area = Finite F"
    and pos: "0 \<le> R \<and> 0 \<le> A \<and> 0 \<le> F"
    using assms(1) by (elim rates_finite) blast
  define w where "w = float_add (round_to_double (A * t)) (round_to_double (F * x))"
  have sw: "float_add (float_mul (float_mul (Finite R) top_area) (Finite t))
               (float_mul (float_mul (Finite R) front_area) (Finite x)) = w"
    by (simp add: A F w_def)
  have "float_le (Finite 0) (round_to_double (A * t))"
    "float_le (Finite 0) (round_to_double (F * x))"
    using pos assms(3,4) by (auto intro!: round_to_double_nonneg)
  then have "float_le (Finite 0) w"
    unfolding w_def
    by (cases "round_to_double (A * t)"; cases "round_to_double (F * x)")
       (auto intro: round_to_double_nonneg)
  with R sw show ?thesis
    by (rule that)
qed

lemma simulate_wetness_returns:
  assumes "num_lt (PyInt 0) s" "num_le (PyInt 0) d" "0 \<le> r" "r \<le> 2 ^ 1020"
    and "py_truediv d s = Inr (Finite t)" "num_to_float d = Inr x"
  obtains w where "simulate_wetness s d r = Inr w" "float_le (Finite 0) w"
proof -
  from assms(2,5,6) obtain q where q: "x = Finite q" "0 \<le> q"
    by (rule py_truediv_finite_distance)
  have "nonneg_or_nan (Finite t)"
    using assms(1,2,5) by (rule py_truediv_nonneg)
  then have t: "0 \<le> t"
    by (simp add: nonneg_or_nan_def)
  from assms(3,4) t q(2) obtain R w where R: "int_to_float r = Inr (Finite R)"
    and w: "float_add (float_mul (float_mul (Finite R) top_area) (Finite t))
               (float_mul (float_mul (Finite R) front_area) (Finite q)) = w"
    and pos: "float_le (Finite 0) w"
    by (rule wetness_returns)
  have "simulate_wetness s d r = Inr w"
    using assms(6) unfolding q(1) by (simp only: simulate_wetness_value [OF assms(5) R] w)
  then show ?thesis
    using pos by (rule that)
qed

lemma simulate_wetness_nonneg_or_nan:
  assumes "num_lt (PyInt 0) s" "num_le (PyInt 0) d" "0 \<le> r"
    and "simulate_wetness s d r = Inr w"
  shows "nonneg_or_nan w"
proof -
  from assms(4) obtain t R x where t: "py_truediv d s = Inr t"
    and R: "int_to_float r = Inr (Finite R)" and x: "num_to_float d = Inr x"
    and w: "w = float_add (float_mul (float_mul (Finite R) top_area) t)
                   (float_mul (float_mul (Finite R) front_area) x)"
    by (rule simulate_wetness_Inr)
  have "nonneg_or_nan t"
    using assms(1,2) t by (rule py_truediv_nonneg)
  moreover have "nonneg_or_nan x"
    using num_to_float_nonneg [OF assms(2) x] by (simp add: nonneg_or_nan_def)
  ultimately show ?thesis
    unfolding w using assms(3) R by (rule wetness_nonneg_or_nan)
qed

lemma simulate_wetness_cases:
  assumes "\<not> num_is_zero s"
  obtains (overflow) "simulate_wetness s d r = Inl OverflowError"
  | (returns) w where "simulate_wetness s d r = Inr w"
proof (cases "simulate_wetness s d r")
  case (Inl e)
  with assms have "e = OverflowError"
    by (rule simulate_wetness_error)
  with Inl show ?thesis
    by (intro overflow) simp
next
  case (Inr w)
  then show ?thesis
    by (rule returns)
qed

text \<open>
  Claim C5, amended. For every speed \<open>> 0\<close>, distance \<open>>= 0\<close> and density \<open>>= 0\<close>, the speed
  and the distance each an int or a float, \<open>simulate_wetness\<close> never returns a negative
  number: it raises \<open>OverflowError\<close> (an int argument or the quotient of two ints does not
  fit a float), or returns NaN (a zero factor met an overflowed infinity), or returns a
  value \<open>>= 0\<close>, which may be \<open>+inf\<close>. It does return a value \<open>>= 0\<close> whenever the density is
  at most \<open>2 ^ 1020\<close>, the division \<open>distance / speed\<close> returns a finite float, and the
  distance converts to float (as every float and every int below \<open>2 ^ 1024 - 2 ^ 970\<close>
  does).
\<close>

theorem simulate_wetness_nonneg:
  assumes "num_lt (PyInt 0) s" "num_le (PyInt 0) d" "0 \<le> r"
  shows "(simulate_wetness s d r = Inl OverflowError \<or> simulate_wetness s d r = Inr NaN \<or>
          (\<exists>w. simulate_wetness s d r = Inr w \<and> float_le (Finite 0) w)) \<and>
         (r \<le> 2 ^ 1020 \<and> (\<exists>t. py_truediv d s = Inr (Finite t)) \<and> num_fits d \<longrightarrow>
          (\<exists>w. simulate_wetness s d r = Inr w \<and> float_le (Finite 0) w))"
proof
  have nz: "\<not> num_is_zero s"
    using assms(1) by (rule num_lt_zero_nonzero)
  show "simulate_wetness s d r = Inl OverflowError \<or> simulate_wetness s d r = Inr NaN \<or>
      (\<exists>w. simulate_wetness s d r = Inr w \<and> float_le (Finite 0) w)"
  proof -
    consider (overflow) "simulate_wetness s d r = Inl OverflowError"
      | (returns) w where "simulate_wetness s d r = Inr w"
      by (rule simulate_wetness_cases [OF nz, of d r]) blast+
    then show ?thesis
    proof cases
      case overflow
      then show ?thesis by simp
    next
      case (returns w)
      with assms have "nonneg_or_nan w"
        by (rule simulate_wetness_nonneg_or_nan)
      with returns show ?thesis
        by (auto simp: nonneg_or_nan_def)
    qed
  qed
  show "r \<le> 2 ^ 1020 \<and> (\<exists>t. py_truediv d s = Inr (Finite t)) \<and> num_fits d \<longrightarrow>
      (\<exists>w. simulate_wetness s d r = Inr w \<and> float_le (Finite 0) w)"
  proof
    assume "r \<le> 2 ^ 1020 \<and> (\<exists>t. py_truediv d s = Inr (Finite t)) \<and> num_fits d"
    then obtain t x where "r \<le> 2 ^ 1020" "py_truediv d s = Inr (Finite t)"
      "num_to_float d = Inr x"
      using num_to_float_Inr_iff [of d] by blast
    with assms obtain w where "simulate_wetness s d r = Inr w" "float_le (Finite 0) w"
      by (rule simulate_wetness_returns)
    then show "\<exists>w. simulate_wetness s d r = Inr w \<and> float_le (Finite 0) w"
      by blast
  qed
qed

lemma py_truediv_500_1: "py_truediv (PyInt 500) (PyFloat (Finite 1)) = Inr (Finite 500)"
  by (simp add: int_to_float_500 float_truediv_def round_eval float_exponent_eq [where e = 8])

lemma num_fits_500: "num_fits (PyInt 500)"
  by (simp add: int_fits_def)

theorem simulate_wetness_nonneg_witness:
  "num_lt (PyInt 0) (PyFloat (Finite 1)) \<and> num_le (PyInt 0) (PyInt 500) \<and> (0::int) \<le> 1000 \<and>
   (1000::int) \<le> 2 ^ 1020 \<and> py_truediv (PyInt 500) (PyFloat (Finite 1)) = Inr (Finite 500) \<and>
   num_fits (PyInt 500) \<and>
   (\<exists>w. simulate_wetness (PyFloat (Finite 1)) (PyInt 500) 1000 = Inr w \<and> float_le (Finite 0) w)"
proof -
  have h: "num_lt (PyInt 0) (PyFloat (Finite 1))" "num_le (PyInt 0) (PyInt 500)"
    "(0::int) \<le> 1000"
    by (simp_all add: num_lt_def num_le_def)
  have b: "(1000::int) \<le> 2 ^ 1020"
    by simp
  from simulate_wetness_nonneg [OF h] b py_truediv_500_1 num_fits_500 h show ?thesis
    by blast
qed

section \<open>The front-impact term as a lower bound\<close>



lemma wetness_ge_front:
  assumes "nonneg_or_nan t" "0 \<le> r" "int_to_float r = Inr R"
    and "float_add (float_mul (float_mul R top_area) t)
                   (float_mul (float_mul R front_area) x) \<noteq> NaN"
  shows "float_le (float_mul (float_mul R front_area) x)
                  (float_add (float_mul (float_mul R top_area) t)
                             (float_mul (float_mul R front_area) x))"
proof -
  define ra where "ra = float_mul (float_mul R top_area) t"
  define rf where "rf = float_mul (float_mul R front_area) x"
  have "nonneg_or_nan ra"
    unfolding ra_def
    by (intro nonneg_or_nan_mul nonneg_or_nan_areas int_to_float_nonneg [OF assms(2,3)]
        assms(1))
  moreover have "float_add ra rf \<noteq> NaN"
    using assms(4) by (simp add: ra_def rf_def)
  moreover have "round_to_double b = Finite b" if "rf = Finite b" for b
    using that unfolding rf_def by (rule float_mul_representable)
  ultimately have "float_le rf (float_add ra rf)"
    by (rule float_le_add_right)
  then show ?thesis
    by (simp add: ra_def rf_def)
qed

lemma simulate_wetness_ge_front:
  assumes "num_lt (PyInt 0) s" "num_le (PyInt 0) d" "0 \<le> r"
    and "simulate_wetness s d r = Inr w" "w \<noteq> NaN"
  obtains f where "front_impact d r = Inr f" "float_le f w"
proof -
  from assms(4) obtain t R x where t: "py_truediv d s = Inr t"
    and R: "int_to_float r = Inr (Finite R)" and x: "num_to_float d = Inr x"
    and w: "w = float_add (float_mul (float_mul (Finite R) top_area) t)
                   (float_mul (float_mul (Finite R) front_area) x)"
    by (rule simulate_wetness_Inr)
  have f: "front_impact d r = Inr (float_mul (float_mul (Finite R) front_area) x)"
    using R x by (rule front_impact_value)
  have "nonneg_or_nan t"
    using assms(1,2) t by (rule py_truediv_nonneg)
  then have "float_le (float_mul (float_mul (Finite R) front_area) x) w"
    unfolding w using assms(3) R assms(5) [unfolded w] by (rule wetness_ge_front)
  with f show ?thesis
    by (rule that)
qed

text \<open>
  Claim C9, amended. For every speed \<open>> 0\<close>, distance \<open>>= 0\<close> and density \<open>>= 0\<close>, the speed
  and the distance each an int or a float, a call that returns a number (it does not raise
  \<open>OverflowError\<close> and does not return NaN) returns at least
  \<open>density * (70/12 * 20/12) * distance\<close>. The call does return such a number whenever the
  density is at most \<open>2 ^ 1020\<close>, the division \<open>distance / speed\<close> returns a finite float,
  and the distance converts to float (as every float and every int below
  \<open>2 ^ 1024 - 2 ^ 970\<close> does).
\<close>

theorem simulate_wetness_ge_front_impact:
  assumes "num_lt (PyInt 0) s" "num_le (PyInt 0) d" "0 \<le> r"
  shows "(simulate_wetness s d r = Inl OverflowError \<or> simulate_wetness s d r = Inr NaN \<or>
          (\<exists>w f. simulate_wetness s d r = Inr w \<and> front_impact d r = Inr f \<and> float_le f w)) \<and>
         (r \<le> 2 ^ 1020 \<and> (\<exists>t. py_truediv d s = Inr (Finite t)) \<and> num_fits d \<longrightarrow>
          (\<exists>w f. simulate_wetness s d r = Inr w \<and> front_impact d r = Inr f \<and> float_le f w))"
proof
  have nz: "\<not> num_is_zero s"
    using assms(1) by (rule num_lt_zero_nonzero)
  show "simulate_wetness s d r = Inl OverflowError \<or> simulate_wetness s d r = Inr NaN \<or>
      (\<exists>w f. simulate_wetness s d r = Inr w \<and> front_impact d r = Inr f \<and> float_le f w)"
  proof -
    consider (overflow) "simulate_wetness s d r = Inl OverflowError"
      | (returns) w where "simulate_wetness s d r = Inr w"
      by (rule simulate_wetness_cases [OF nz, of d r]) blast+
    then show ?thesis
    proof cases
      case overflow
      then show ?thesis by simp
    next
      case (returns w)
      show ?thesis
      proof (cases "w = NaN")
        case True
        with returns show ?thesis by simp
      next
        case False
        with assms returns obtain f where "front_impact d r = Inr f" "float_le f w"
          by (rule simulate_wetness_ge_front)
        with returns show ?thesis by blast
      qed
    qed
  qed
  show "r \<le> 2 ^ 1020 \<and> (\<exists>t. py_truediv d s = Inr (Finite t)) \<and> num_fits d \<longrightarrow>
      (\<exists>w f. simulate_wetness s d r = Inr w \<and> front_impact d r = Inr f \<and> float_le f w)"
  proof
    assume "r \<le> 2 ^ 1020 \<and> (\<exists>t. py_truediv d s = Inr (Finite t)) \<and> num_fits d"
    then obtain t x where "r \<le> 2 ^ 1020" "py_truediv d s = Inr (Finite t)"
      "num_to_float d = Inr x"
      using num_to_float_Inr_iff [of d] by blast
    with assms obtain w where w: "simulate_wetness s d r = Inr w" "float_le (Finite 0) w"
      by (rule simulate_wetness_returns)
    then have "w \<noteq> NaN"
      by auto
    with assms w(1) obtain f where "front_impact d r = Inr f" "float_le f w"
      by (rule simulate_wetness_ge_front)
    with w(1) show "\<exists>w f. simulate_wetness s d r = Inr w \<and> front_impact d r = Inr f \<and>
        float_le f w"
      by blast
  qed
qed

theorem simulate_wetness_ge_front_impact_witness:
  "num_lt (PyInt 0) (PyFloat (Finite 1)) \<and> num_le (PyInt 0) (PyInt 500) \<and> (0::int) \<le> 1000 \<and>
   (1000::int) \<le> 2 ^ 1020 \<and> py_truediv (PyInt 500) (PyFloat (Finite 1)) = Inr (Finite 500) \<and>
   num_fits (PyInt 500) \<and>
   (\<exists>w f. simulate_wetness (PyFloat (Finite 1)) (PyInt 500) 1000 = Inr w \<and>
      front_impact (PyInt 500) 1000 = Inr f \<and> float_le f w)"
proof -
  have h: "num_lt (PyInt 0) (PyFloat (Finite 1))" "num_le (PyInt 0) (PyInt 500)"
    "(0::int) \<le> 1000"
    by (simp_all add: num_lt_def num_le_def)
  have b: "(1000::int) \<le> 2 ^ 1020"
    by simp
  from simulate_wetness_ge_front_impact [OF h] b py_truediv_500_1 num_fits_500 h show ?thesis
    by blast
qed

section \<open>NaN results\<close>

lemma float_mul_0_area:
  "float_mul (Finite 0) top_area = Finite 0" "float_mul (Finite 0) front_area = Finite 0"
  by (simp_all add: top_area_value front_area_value round_to_double_def)

text \<open>
  Non-negativity as stated for all speeds \<open>> 0\<close>, distances \<open>>= 0\<close> and densities \<open>>= 0\<close>
  fails where \<open>distance / speed\<close> overflows and the density is zero: \<open>0.0 * inf\<close> is NaN,
  and \<open>NaN >= 0\<close> is false.
\<close>

theorem simulate_wetness_nan_counterexample:
  "num_lt (PyInt 0) (PyFloat (Finite (1 / 2 ^ 600))) \<and>
   num_le (PyInt 0) (PyFloat (Finite (2 ^ 600))) \<and> (0::int) \<le> 0 \<and>
   simulate_wetness (PyFloat (Finite (1 / 2 ^ 600))) (PyFloat (Finite (2 ^ 600))) 0 = Inr NaN \<and>
   \<not> float_le (Finite 0) NaN"
proof -
  have nz: "Finite (1 / 2 ^ 600) \<noteq> Finite 0"
    by simp
  have t: "float_div (Finite (2 ^ 600)) (Finite (1 / 2 ^ 600)) = PosInf"
    by (simp add: round_eval float_exponent_eq [where e = 1200])
  have ra: "float_mul (Finite 0) PosInf = NaN"
    by simp
  have "simulate_wetness (PyFloat (Finite (1 / 2 ^ 600))) (PyFloat (Finite (2 ^ 600))) 0
      = Inr NaN"
    by (simp only: simulate_wetness_floats [OF nz int_to_float_0] t float_mul_0_area ra
        float_add.simps)
  then show ?thesis
    by (simp add: num_lt_def num_le_def)
qed

text \<open>
  The lower bound as stated fails in the same way: the result is NaN while the front-impact
  term is \<open>0.0\<close>, and \<open>NaN >= 0.0\<close> is false.
\<close>

theorem front_impact_nan_counterexample:
  "num_lt (PyInt 0) (PyFloat (Finite (1 / 2 ^ 1000))) \<and>
   num_le (PyInt 0) (PyFloat (Finite (2 ^ 500))) \<and> (0::int) \<le> 0 \<and>
   simulate_wetness (PyFloat (Finite (1 / 2 ^ 1000))) (PyFloat (Finite (2 ^ 500))) 0 = Inr NaN \<and>
   front_impact (PyFloat (Finite (2 ^ 500))) 0 = Inr (Finite 0) \<and>
   \<not> float_le (Finite 0) NaN"
proof -
  have nz: "Finite (1 / 2 ^ 1000) \<noteq> Finite 0"
    by simp
  have t: "float_div (Finite (2 ^ 500)) (Finite (1 / 2 ^ 1000)) = PosInf"
    by (simp add: round_eval float_exponent_eq [where e = 1500])
  have ra: "float_mul (Finite 0) PosInf = NaN"
    by simp
  have rf: "float_mul (Finite 0) (Finite (2 ^ 500)) = Finite 0"
    by (simp add: round_to_double_def)
  have x: "num_to_float (PyFloat (Finite (2 ^ 500))) = Inr (Finite (2 ^ 500))"
    by simp
  have "simulate_wetness (PyFloat (Finite (1 / 2 ^ 1000))) (PyFloat (Finite (2 ^ 500))) 0
      = Inr NaN"
    by (simp only: simulate_wetness_floats [OF nz int_to_float_0] t float_mul_0_area ra
        float_add.simps)
  moreover have "front_impact (PyFloat (Finite (2 ^ 500))) 0 = Inr (Finite 0)"
    by (simp only: front_impact_value [OF int_to_float_0 x] float_mul_0_area rf)
  ultimately show ?thesis
    by (simp add: num_lt_def num_le_def)
qed

section \<open>Monotonicity in the speed\<close>






















section \<open>Zero distance\<close>

lemma float_div_zero: "y \<noteq> NaN \<Longrightarrow> float_div (Finite 0) y = Finite 0"
  by (cases y) (simp_all add: round_to_double_def)

lemma py_truediv_zero_int:
  assumes "\<not> num_is_zero s" "s \<noteq> PyFloat NaN"
  shows "py_truediv (PyInt 0) s = Inr (Finite 0)"
proof (cases s)
  case (PyInt b)
  with assms(1) show ?thesis
    by (simp add: int_truediv_def round_to_double_def)
next
  case (PyFloat y)
  with assms show ?thesis
    by (simp add: int_to_float_0 float_truediv_def float_div_zero)
qed

lemma py_truediv_zero_float:
  assumes "\<not> num_is_zero s" "s \<noteq> PyFloat NaN" "num_fits s"
  shows "py_truediv (PyFloat (Finite 0)) s = Inr (Finite 0)"
proof (cases s)
  case s: (PyInt b)
  with assms(3) obtain y where y: "int_to_float b = Inr y"
    using int_to_float_Inr_iff [of b] by auto
  then obtain q where q: "y = Finite q"
    by (cases b rule: int_to_float_cases) auto
  have "q \<noteq> 0"
    using assms(1) y int_to_float_zero_iff [of b] by (auto simp: s q)
  with y show ?thesis
    by (simp add: s q float_truediv_def round_to_double_def)
next
  case (PyFloat y)
  with assms show ?thesis
    by (simp add: float_truediv_def float_div_zero)
qed

lemma simulate_wetness_zero:
  assumes "\<bar>r\<bar> \<le> 2 ^ 1020" "py_truediv d s = Inr (Finite 0)" "num_to_float d = Inr (Finite 0)"
  shows "simulate_wetness s d r = Inr (Finite 0)"
proof -
  from assms(1) obtain R A F where R: "int_to_float r = Inr (Finite R)"
    and A: "float_mul (Finite R) top_area = Finite A"
    and F: "float_mul (Finite R) front_area = Finite F"
    by (rule rates_finite)
  show ?thesis
    by (simp add: simulate_wetness_value [OF assms(2) R assms(3)] A F round_to_double_def)
qed

text \<open>
  Claim C10, amended. For every speed other than zero and NaN, an int or a float, and every
  density of magnitude at most \<open>2 ^ 1020\<close>, \<open>simulate_wetness(speed, 0, density)\<close> returns
  zero. With the float distance \<open>0.0\<close> in place of the int \<open>0\<close> it returns zero as well,
  provided the speed converts to float (as every float and every int below
  \<open>2 ^ 1024 - 2 ^ 970\<close> does).
\<close>

theorem simulate_wetness_zero_distance:
  assumes "\<not> num_is_zero s" "s \<noteq> PyFloat NaN" "\<bar>r\<bar> \<le> 2 ^ 1020"
  shows "simulate_wetness s (PyInt 0) r = Inr (Finite 0) \<and>
         (num_fits s \<longrightarrow> simulate_wetness s (PyFloat (Finite 0)) r = Inr (Finite 0))"
proof
  have "py_truediv (PyInt 0) s = Inr (Finite 0)"
    using assms(1,2) by (rule py_truediv_zero_int)
  moreover have "num_to_float (PyInt 0) = Inr (Finite 0)"
    by (simp add: int_to_float_0)
  ultimately show "simulate_wetness s (PyInt 0) r = Inr (Finite 0)"
    using assms(3) by (intro simulate_wetness_zero)
  show "num_fits s \<longrightarrow> simulate_wetness s (PyFloat (Finite 0)) r = Inr (Finite 0)"
  proof
    assume "num_fits s"
    with assms(1,2) have "py_truediv (PyFloat (Finite 0)) s = Inr (Finite 0)"
      by (rule py_truediv_zero_float)
    moreover have "num_to_float (PyFloat (Finite 0)) = Inr (Finite 0)"
      by simp
    ultimately show "simulate_wetness s (PyFloat (Finite 0)) r = Inr (Finite 0)"
      using assms(3) by (intro simulate_wetness_zero)
  qed
qed

theorem simulate_wetness_zero_distance_witness:
  "\<not> num_is_zero (PyFloat (Finite 1)) \<and> PyFloat (Finite 1) \<noteq> PyFloat NaN \<and>
   \<bar>1000 :: int\<bar> \<le> 2 ^ 1020 \<and> num_fits (PyFloat (Finite 1)) \<and>
   simulate_wetness (PyFloat (Finite 1)) (PyInt 0) 1000 = Inr (Finite 0) \<and>
   simulate_wetness (PyFloat (Finite 1)) (PyFloat (Finite 0)) 1000 = Inr (Finite 0)"
proof -
  have h: "\<not> num_is_zero (PyFloat (Finite 1))"
    "PyFloat (Finite 1) \<noteq> PyFloat NaN"
    "\<bar>1000 :: int\<bar> \<le> 2 ^ 1020"
    by simp_all
  have f: "num_fits (PyFloat (Finite 1))"
    by simp
  from simulate_wetness_zero_distance [OF h] h f show ?thesis
    by blast
qed

text \<open>
  A zero distance does not give zero for every density: with density \<open>2 ^ 1023\<close> the product
  \<open>rain_density * front_area\<close> overflows to \<open>inf\<close>, and \<open>inf * 0.0\<close> is NaN.
\<close>

theorem simulate_wetness_zero_distance_counterexample:
  "\<not> num_is_zero (PyFloat (Finite 1)) \<and>
   simulate_wetness (PyFloat (Finite 1)) (PyInt 0) (2 ^ 1023) = Inr NaN \<and>
   \<not> float_eq NaN (Finite 0)"
proof -
  have nz: "Finite 1 \<noteq> Finite 0"
    by simp
  have c: "int_to_float (2 ^ 1023) = Inr (Finite (2 ^ 1023))"
    by (simp add: int_to_float_def round_eval float_exponent_eq [where e = 1023])
  have t: "float_div (Finite 0) (Finite 1) = Finite 0"
    by (simp add: round_to_double_def)
  have a: "float_mul (Finite (2 ^ 1023)) top_area
      = Finite (2 ^ 1023 * (7505999378950827 / 4503599627370496))"
    by (simp add: top_area_value round_eval float_exponent_eq [where e = 1023])
  have ra: "float_mul (Finite (2 ^ 1023 * (7505999378950827 / 4503599627370496))) (Finite 0)
      = Finite 0"
    by (simp add: round_to_double_def)
  have f: "float_mul (Finite (2 ^ 1023)) front_area = PosInf"
    by (simp add: front_area_value round_eval float_exponent_eq [where e = 1026])
  have rf: "float_mul PosInf (Finite 0) = NaN"
    by simp
  have "simulate_wetness (PyFloat (Finite 1)) (PyInt 0) (2 ^ 1023) = Inr NaN"
    by (simp only: simulate_wetness_float_int [OF nz c int_to_float_0] t a ra f rf
        float_add.simps)
  then show ?thesis
    by (simp add: float_eq_def)
qed

section \<open>Rounding error\<close>

lemma unit_roundoff_bounds: "0 < unit_roundoff" "unit_roundoff < 1"
  by (simp_all add: unit_roundoff_def)

lemma round_value_error:
  assumes "2 powi (- 1022) \<le> \<bar>x\<bar>"
  shows "\<bar>round_value x - x\<bar> \<le> \<bar>x\<bar> * unit_roundoff"
proof -
  have "(0::rat) < 2 powi (- 1022)"
    by (rule powi_two_pos)
  with assms have nz: "x \<noteq> 0"
    by auto
  define e where "e = float_exponent x"
  have lo: "2 powi e \<le> \<bar>x\<bar>" and hi: "\<bar>x\<bar> < 2 powi (e + 1)"
    unfolding e_def using nz by (rule float_exponent_bounds)+
  have "(2::rat) powi (- 1022) < 2 powi (e + 1)"
    using assms hi by linarith
  then have "- 1022 < e + 1"
    by (metis not_less one_le_numeral power_int_increasing)
  then have q: "float_quantum x = e - 52"
    by (simp add: float_quantum_def e_def)
  define z where "z = x / 2 powi (e - 52)"
  have xz: "z * 2 powi (e - 52) = x"
    by (simp add: z_def)
  have rv: "round_value x = of_int (round_half_even z) * 2 powi (e - 52)"
    by (simp add: round_value_def q z_def)
  have "\<bar>of_int (round_half_even z) - z\<bar> \<le> 1 / 2"
    using round_half_even_bounds [of z] by linarith
  then have "\<bar>of_int (round_half_even z) - z\<bar> * 2 powi (e - 52) \<le> 1 / 2 * 2 powi (e - 52)"
    by (intro mult_right_mono) auto
  moreover have "(of_int (round_half_even z) - z) * 2 powi (e - 52) = round_value x - x"
    by (simp add: left_diff_distrib rv xz)
  then have "\<bar>round_value x - x\<bar>
      = \<bar>(of_int (round_half_even z) - z) * 2 powi (e - 52)\<bar>"
    by (simp only:)
  then have "\<bar>round_value x - x\<bar>
      = \<bar>of_int (round_half_even z) - z\<bar> * 2 powi (e - 52)"
    by (simp only: abs_mult) simp
  moreover have "1 / 2 * (2::rat) powi (e - 52) = 2 powi e * unit_roundoff"
  proof -
    have "(2::rat) powi (e - 52) = 2 powi e / 2 powi 52"
      by (rule power_int_diff) simp
    then show ?thesis
      by (simp add: unit_roundoff_def)
  qed
  moreover have "2 powi e * unit_roundoff \<le> \<bar>x\<bar> * unit_roundoff"
    using lo unit_roundoff_bounds(1) by (intro mult_right_mono) auto
  ultimately show ?thesis
    by linarith
qed

lemma in_range_pos:
  assumes "in_range k x"
  shows "0 < x"
proof -
  have "(0::rat) < 2 powi (- k)"
    by (rule powi_two_pos)
  moreover have "2 powi (- k) \<le> x"
    using assms by (simp add: in_range_def)
  ultimately show ?thesis
    by linarith
qed

lemma in_range_mono: "in_range j x \<Longrightarrow> j \<le> k \<Longrightarrow> in_range k x"
proof -
  assume a: "in_range j x" "j \<le> k"
  have "(2::rat) powi (- k) \<le> 2 powi (- j)" "(2::rat) powi j \<le> 2 powi k"
    using a(2) by (auto intro!: power_int_increasing)
  with a(1) show ?thesis
    by (auto simp: in_range_def)
qed

lemma in_range_mul:
  assumes "in_range j a" "in_range k b"
  shows "in_range (j + k) (a * b)"
proof -
  have a: "0 < a" and b: "0 < b"
    using assms by (auto dest: in_range_pos)
  have "(2::rat) powi (- j) * 2 powi (- k) \<le> a * b"
    using assms a b by (intro mult_mono) (auto simp: in_range_def)
  moreover have "a * b \<le> 2 powi j * 2 powi k"
    using assms a b by (intro mult_mono) (auto simp: in_range_def)
  moreover have "(2::rat) powi (- j) * 2 powi (- k) = 2 powi (- (j + k))"
    "(2::rat) powi j * 2 powi k = 2 powi (j + k)"
    by (simp_all flip: power_int_add)
  ultimately show ?thesis
    by (simp add: in_range_def)
qed

lemma in_range_inverse:
  assumes "in_range k b"
  shows "in_range k (1 / b)"
proof -
  have b: "0 < b"
    using assms by (rule in_range_pos)
  have "1 / b \<le> 1 / 2 powi (- k)"
    using assms b by (intro divide_left_mono) (auto simp: in_range_def)
  moreover have "1 / 2 powi k \<le> 1 / b"
    using assms b by (intro divide_left_mono) (auto simp: in_range_def)
  moreover have "1 / (2::rat) powi (- k) = 2 powi k" "1 / (2::rat) powi k = 2 powi (- k)"
    by (simp_all add: power_int_minus divide_inverse)
  ultimately show ?thesis
    by (simp add: in_range_def)
qed

lemma in_range_div:
  assumes "in_range j a" "in_range k b"
  shows "in_range (j + k) (a / b)"
  using in_range_mul [OF assms(1) in_range_inverse [OF assms(2)]] by simp

lemma in_range_add:
  assumes "in_range j a" "in_range k b" "j \<le> n" "k \<le> n"
  shows "in_range (n + 1) (a + b)"
proof -
  have a: "in_range n a" and b: "in_range n b"
    using assms by (auto intro: in_range_mono)
  have "0 < b"
    using b by (rule in_range_pos)
  have "(2::rat) powi (- (n + 1)) \<le> 2 powi (- n)"
    by (intro power_int_increasing) auto
  then have "2 powi (- (n + 1)) \<le> a + b"
    using a \<open>0 < b\<close> by (auto simp: in_range_def)
  moreover have "a + b \<le> 2 powi n + 2 powi n"
    using a b by (auto simp: in_range_def)
  moreover have "(2::rat) powi n + 2 powi n = 2 powi (n + 1)"
    by (simp add: power_int_add)
  ultimately show ?thesis
    by (simp add: in_range_def)
qed

lemma round_value_powi:
  assumes "- 1074 \<le> k"
  shows "round_value (2 powi k) = 2 powi k"
  using round_value_grid [of 1 k] assms by simp

lemma round_in_range:
  assumes "in_range k x" "0 \<le> k" "k \<le> 1022"
  obtains y where "round_to_double x = Finite y" "in_range k y" "approx 1 y x"
proof -
  have x: "0 < x"
    using assms(1) by (rule in_range_pos)
  have lo: "2 powi (- k) \<le> round_value x"
  proof -
    have "round_value (2 powi (- k)) \<le> round_value x"
      using assms(1) by (intro round_value_mono) (simp add: in_range_def)
    then show ?thesis
      using assms(3) by (simp add: round_value_powi)
  qed
  have hi: "round_value x \<le> 2 powi k"
  proof -
    have "round_value x \<le> round_value (2 powi k)"
      using assms(1) by (intro round_value_mono) (simp add: in_range_def)
    then show ?thesis
      using assms(2) by (simp add: round_value_powi)
  qed
  have "(2::rat) powi k \<le> 2 powi 1022"
    using assms(3) by (intro power_int_increasing) auto
  also have "\<dots> < 2 ^ 1024"
    by simp
  finally have fin: "round_value x < 2 ^ 1024"
    using hi by linarith
  have "(0::rat) < 2 powi (- k)"
    by (rule powi_two_pos)
  with lo have pos: "0 < round_value x"
    by linarith
  have r: "round_to_double x = Finite (round_value x)"
    using x fin pos by (simp add: round_to_double_def Let_def)
  have "(2::rat) powi (- 1022) \<le> 2 powi (- k)"
    using assms(3) by (intro power_int_increasing) auto
  then have "2 powi (- 1022) \<le> \<bar>x\<bar>"
    using assms(1) x by (simp add: in_range_def)
  then have "\<bar>round_value x - x\<bar> \<le> \<bar>x\<bar> * unit_roundoff"
    by (rule round_value_error)
  then have "approx 1 (round_value x) x"
    using x by (simp add: approx_def abs_le_iff algebra_simps)
  with r lo hi show ?thesis
    by (intro that [of "round_value x"]) (simp_all add: in_range_def)
qed

lemma approx_refl: "approx 0 x x"
  by (simp add: approx_def)

lemma approx_mul:
  assumes "approx m a x" "approx n b y" "0 \<le> x" "0 \<le> y"
  shows "approx (m + n) (a * b) (x * y)"
proof -
  have u: "0 \<le> 1 - unit_roundoff" "0 \<le> 1 + unit_roundoff"
    using unit_roundoff_bounds by simp_all
  have lo: "0 \<le> x * (1 - unit_roundoff) ^ m" "0 \<le> y * (1 - unit_roundoff) ^ n"
    using assms(3,4) u by simp_all
  have a: "x * (1 - unit_roundoff) ^ m \<le> a" "a \<le> x * (1 + unit_roundoff) ^ m"
    and b: "y * (1 - unit_roundoff) ^ n \<le> b" "b \<le> y * (1 + unit_roundoff) ^ n"
    using assms(1,2) by (simp_all add: approx_def)
  have a0: "0 \<le> a" and b0: "0 \<le> b"
    using lo a(1) b(1) by linarith+
  have "x * (1 - unit_roundoff) ^ m * (y * (1 - unit_roundoff) ^ n) \<le> a * b"
    using a(1) b(1) a0 lo(2) by (rule mult_mono)
  moreover have "a * b \<le> x * (1 + unit_roundoff) ^ m * (y * (1 + unit_roundoff) ^ n)"
  proof -
    have "0 \<le> x * (1 + unit_roundoff) ^ m"
      using assms(3) u by simp
    with a(2) b(2) show ?thesis
      using b0 by (rule mult_mono)
  qed
  ultimately show ?thesis
    by (simp add: approx_def power_add mult_ac)
qed

lemma approx_add:
  assumes "approx n a x" "approx n b y"
  shows "approx n (a + b) (x + y)"
  using assms by (simp add: approx_def distrib_right)

lemma approx_suc:
  assumes "approx n a x" "0 \<le> x"
  shows "approx (Suc n) a x"
proof -
  have u: "0 \<le> unit_roundoff" "unit_roundoff \<le> 1"
    using unit_roundoff_bounds by simp_all
  have p: "0 \<le> x * (1 - unit_roundoff) ^ n" "0 \<le> x * (1 + unit_roundoff) ^ n"
    using assms(2) u by simp_all
  have "x * (1 - unit_roundoff) ^ n * (1 - unit_roundoff) \<le> x * (1 - unit_roundoff) ^ n * 1"
    using p(1) u by (intro mult_left_mono) simp_all
  moreover have "x * (1 + unit_roundoff) ^ n * 1 \<le> x * (1 + unit_roundoff) ^ n * (1 + unit_roundoff)"
    using p(2) u by (intro mult_left_mono) simp_all
  ultimately show ?thesis
    using assms(1) by (simp add: approx_def mult_ac)
qed

lemma round_approx:
  assumes "in_range k y" "0 \<le> k" "k \<le> 1022" "approx n y x" "0 \<le> x"
  obtains z where "round_to_double y = Finite z" "in_range k z" "approx (Suc n) z x"
proof -
  from assms(1,2,3) obtain z where z: "round_to_double y = Finite z" "in_range k z"
    "approx 1 z y"
    by (rule round_in_range)
  have u: "0 \<le> 1 - unit_roundoff" "0 \<le> 1 + unit_roundoff"
    using unit_roundoff_bounds by simp_all
  have y: "x * (1 - unit_roundoff) ^ n \<le> y" "y \<le> x * (1 + unit_roundoff) ^ n"
    using assms(4) by (simp_all add: approx_def)
  have zb: "y * (1 - unit_roundoff) \<le> z" "z \<le> y * (1 + unit_roundoff)"
    using z(3) by (simp_all add: approx_def)
  have "x * (1 - unit_roundoff) ^ n * (1 - unit_roundoff) \<le> y * (1 - unit_roundoff)"
    using y(1) u(1) by (rule mult_right_mono)
  moreover have "y * (1 + unit_roundoff) \<le> x * (1 + unit_roundoff) ^ n * (1 + unit_roundoff)"
    using y(2) u(2) by (rule mult_right_mono)
  ultimately have "approx (Suc n) z x"
    using zb by (simp add: approx_def mult_ac)
  with z(1,2) show ?thesis
    by (rule that)
qed

lemma approx_close:
  assumes "approx 3 w x" "approx 3 p x" "0 \<le> x"
  shows "\<bar>w - p\<bar> \<le> p / 2 ^ 50"
proof -
  define lo where "lo = (1 - unit_roundoff) ^ 3"
  define hi where "hi = (1 + unit_roundoff) ^ 3"
  have c: "hi - lo \<le> lo / 2 ^ 50"
    by (simp add: lo_def hi_def unit_roundoff_def power3_eq_cube)
  have w: "x * lo \<le> w" "w \<le> x * hi" and p: "x * lo \<le> p" "p \<le> x * hi"
    using assms(1,2) by (simp_all add: approx_def lo_def hi_def)
  have "x * (hi - lo) \<le> x * (lo / 2 ^ 50)"
    using c assms(3) by (rule mult_left_mono)
  also have "\<dots> = x * lo / 2 ^ 50"
    by simp
  also have "\<dots> \<le> p / 2 ^ 50"
    using p(1) by (intro divide_right_mono) simp_all
  finally have "x * hi - x * lo \<le> p / 2 ^ 50"
    by (simp only: right_diff_distrib)
  moreover have "\<bar>w - p\<bar> \<le> x * hi - x * lo"
    using w p by linarith
  ultimately show ?thesis
    by (rule order_trans [rotated])
qed

lemma in_range_areas:
  "in_range 1 (7505999378950827 / 4503599627370496)"
  "in_range 4 (1368281136787911 / 140737488355328)"
  by (simp_all add: in_range_def)

lemma float_mul_1_areas:
  "float_mul (Finite 1) top_area = Finite (7505999378950827 / 4503599627370496)"
  "float_mul (Finite 1) front_area = Finite (1368281136787911 / 140737488355328)"
  by (simp_all add: top_area_value front_area_value round_eval float_exponent_eq [where e = 0]
      float_exponent_eq [where e = 3])

lemma approx_mul_right:
  assumes "approx n a x" "0 \<le> y"
  shows "approx n (a * y) (x * y)"
proof -
  have "x * (1 - unit_roundoff) ^ n * y \<le> a * y" "a * y \<le> x * (1 + unit_roundoff) ^ n * y"
    using assms by (auto simp: approx_def intro: mult_right_mono)
  then show ?thesis
    by (simp add: approx_def mult_ac)
qed

lemma approx_mul_left:
  assumes "approx n a x" "0 \<le> y"
  shows "approx n (y * a) (y * x)"
  using approx_mul_right [OF assms] by (simp add: mult.commute)

section \<open>Arguments of moderate size\<close>

lemma in_box_value:
  assumes "in_box x"
  obtains p where "num_value x = Finite p" "in_range 300 p"
proof -
  have p: "(2::rat) powi (- 300) = 1 / 2 ^ 300" "(2::rat) powi 300 = 2 ^ 300"
    by (simp_all add: inverse_eq_divide)
  from assms obtain q where q: "num_value x = Finite q" "1 / 2 ^ 300 \<le> q" "q \<le> 2 ^ 300"
    unfolding in_box_def by (cases "num_value x") auto
  have "in_range 300 q"
    unfolding in_range_def p using q(2,3) by simp
  with q(1) show ?thesis
    by (rule that)
qed

lemma num_to_float_in_box:
  assumes "in_box x"
  obtains y where "num_to_float x = Inr (Finite y)" "in_range 300 y"
proof -
  from assms obtain p where p: "num_value x = Finite p" "in_range 300 p"
    by (rule in_box_value)
  show ?thesis
  proof (cases x)
    case (PyInt n)
    with p have "in_range 300 (of_int n)"
      by simp
    then obtain y where y: "round_to_double (of_int n) = Finite y" "in_range 300 y"
      by (rule round_in_range) simp_all
    have "num_to_float x = Inr (Finite y)"
      by (simp add: PyInt int_to_float_def y(1))
    then show ?thesis
      using y(2) by (rule that)
  next
    case (PyFloat z)
    with p have "num_to_float x = Inr (Finite p)"
      by simp
    then show ?thesis
      using p(2) by (rule that)
  qed
qed

lemma py_truediv_mixed:
  assumes "\<not> (is_int d \<and> is_int s)" "num_to_float d = Inr x" "num_to_float s = Inr y"
  shows "py_truediv d s = float_truediv x y"
  using assms by (cases d; cases s) simp_all

lemma py_truediv_in_box:
  assumes "in_box s" "in_box d"
  obtains t x where "py_truediv d s = Inr (Finite t)" "in_range (300 + 300) t"
    "num_to_float d = Inr (Finite x)" "in_range 300 x"
proof -
  from assms(2) obtain x where x: "num_to_float d = Inr (Finite x)" "in_range 300 x"
    by (rule num_to_float_in_box)
  from assms(1) obtain y where y: "num_to_float s = Inr (Finite y)" "in_range 300 y"
    by (rule num_to_float_in_box)
  show ?thesis
  proof (cases "is_int d \<and> is_int s")
    case True
    then obtain a b where d: "d = PyInt a" and s: "s = PyInt b"
      by (cases d; cases s) auto
    from assms(2) obtain p where p: "num_value d = Finite p" "in_range 300 p"
      by (rule in_box_value)
    from assms(1) obtain q where q: "num_value s = Finite q" "in_range 300 q"
      by (rule in_box_value)
    from p q have pq: "p = of_int a" "q = of_int b"
      by (simp_all add: d s)
    have "0 < q"
      using q(2) by (rule in_range_pos)
    then have b: "b \<noteq> 0"
      by (auto simp: pq)
    have "in_range (300 + 300) (p / q)"
      using p(2) q(2) by (rule in_range_div)
    then obtain t where t: "round_to_double (p / q) = Finite t" "in_range (300 + 300) t"
      by (rule round_in_range) simp_all
    have "py_truediv d s = Inr (Finite t)"
      using t(1) b by (simp add: d s int_truediv_def pq)
    then show ?thesis
      using t(2) x by (rule that)
  next
    case False
    have "0 < y"
      using y(2) by (rule in_range_pos)
    then have nz: "Finite y \<noteq> Finite 0"
      by simp
    have "in_range (300 + 300) (x / y)"
      using x(2) y(2) by (rule in_range_div)
    then obtain t where t: "round_to_double (x / y) = Finite t" "in_range (300 + 300) t"
      by (rule round_in_range) simp_all
    have "py_truediv d s = float_truediv (Finite x) (Finite y)"
      using False x(1) y(1) by (rule py_truediv_mixed)
    also have "\<dots> = Inr (Finite t)"
      using nz by (simp add: float_truediv_def t(1))
    finally show ?thesis
      using t(2) x by (rule that)
  qed
qed

section \<open>The two summands\<close>

lemma above_impact_error:
  assumes "\<not> num_is_zero s" "above_impact s d r = Inl e"
  shows "e = OverflowError"
proof (cases "int_to_float r")
  case (Inl e')
  with assms(2) have "e = e'"
    by (simp add: above_impact_def int_mul_float_def)
  with Inl show ?thesis
    by (auto dest: int_to_float_error)
next
  case (Inr R)
  with assms(2) have "py_truediv d s = Inl e"
    by (cases "py_truediv d s") (simp_all add: above_impact_def int_mul_float_def)
  with assms(1) show ?thesis
    by (rule py_truediv_error)
qed

lemma wetness_above_plus_front:
  assumes "\<not> num_is_zero s"
  shows "simulate_wetness s d r =
    (case above_impact s d r of
       Inl e \<Rightarrow> Inl e
     | Inr a \<Rightarrow> (case front_impact d r of Inl e \<Rightarrow> Inl e | Inr f \<Rightarrow> Inr (float_add a f)))"
proof (cases "py_truediv d s")
  case (Inl e)
  with assms have e: "e = OverflowError"
    by (rule py_truediv_error)
  have sw: "simulate_wetness s d r = Inl OverflowError"
    using Inl e by (simp add: simulate_wetness_def)
  have "above_impact s d r = Inl OverflowError"
  proof (cases "above_impact s d r")
    case a: (Inl e')
    with assms have "e' = OverflowError"
      by (rule above_impact_error)
    with a show ?thesis
      by simp
  next
    case (Inr a)
    with Inl show ?thesis
      by (simp add: above_impact_def split: sum.splits)
  qed
  with sw show ?thesis
    by simp
next
  case t: (Inr t)
  show ?thesis
  proof (cases "int_to_float r")
    case (Inl e')
    with t show ?thesis
      by (simp add: simulate_wetness_def above_impact_def int_mul_float_def)
  next
    case R: (Inr R)
    show ?thesis
    proof (cases "num_to_float d")
      case (Inl e')
      then have "e' = OverflowError"
        by (rule num_to_float_error)
      with Inl have x: "num_to_float d = Inl OverflowError"
        by simp
      have "simulate_wetness s d r = Inl OverflowError"
        using x t R by (rule simulate_wetness_overflow_distance)
      moreover have "front_impact d r = Inl OverflowError"
        using R x by (simp add: front_impact_def int_mul_float_def float_mul_num_eq)
      ultimately show ?thesis
        by (simp add: above_impact_value [OF t R])
    next
      case (Inr x)
      with t R show ?thesis
        by (simp add: simulate_wetness_value above_impact_value front_impact_value)
    qed
  qed
qed

lemma round_value_error_quantum:
  "\<bar>round_value x - x\<bar> \<le> 2 powi float_quantum x / 2"
proof -
  define q where "q = float_quantum x"
  define z where "z = x / 2 powi q"
  have xz: "z * 2 powi q = x"
    by (simp add: z_def)
  have rv: "round_value x = of_int (round_half_even z) * 2 powi q"
    by (simp add: round_value_def q_def z_def)
  have "\<bar>of_int (round_half_even z) - z\<bar> \<le> 1 / 2"
    using round_half_even_bounds [of z] by linarith
  then have "\<bar>of_int (round_half_even z) - z\<bar> * 2 powi q \<le> 1 / 2 * 2 powi q"
    by (intro mult_right_mono) auto
  moreover have "(of_int (round_half_even z) - z) * 2 powi q = round_value x - x"
    by (simp add: left_diff_distrib rv xz)
  then have "\<bar>round_value x - x\<bar> = \<bar>(of_int (round_half_even z) - z) * 2 powi q\<bar>"
    by (simp only:)
  then have "\<bar>round_value x - x\<bar> = \<bar>of_int (round_half_even z) - z\<bar> * 2 powi q"
    by (simp only: abs_mult) simp
  ultimately show ?thesis
    by (simp add: q_def)
qed

lemma round_value_error_abs:
  "\<bar>round_value x - x\<bar> \<le> \<bar>x\<bar> * unit_roundoff + 1 / 2 ^ 1075"
proof -
  consider "x = 0" | "x \<noteq> 0" "2 powi (- 1022) \<le> \<bar>x\<bar>" | "x \<noteq> 0" "\<not> 2 powi (- 1022) \<le> \<bar>x\<bar>"
    by blast
  then show ?thesis
  proof cases
    case 1
    then show ?thesis
      by (simp add: round_value_zero)
  next
    case 2
    then have "\<bar>round_value x - x\<bar> \<le> \<bar>x\<bar> * unit_roundoff"
      by (intro round_value_error)
    then show ?thesis
      by (simp add: add_increasing2)
  next
    case 3
    have "2 powi float_exponent x \<le> \<bar>x\<bar>"
      using 3(1) by (rule float_exponent_bounds)
    with 3(2) have "(2::rat) powi float_exponent x < 2 powi (- 1022)"
      by linarith
    then have "float_exponent x < - 1022"
      by (metis not_less one_le_numeral power_int_increasing)
    then have q: "float_quantum x = - 1074"
      by (simp add: float_quantum_def)
    have "\<bar>round_value x - x\<bar> \<le> 2 powi (- 1074) / 2"
      using round_value_error_quantum [of x] by (simp only: q)
    also have "\<dots> = 1 / 2 ^ 1075"
      by (simp add: inverse_eq_divide)
    finally have "\<bar>round_value x - x\<bar> \<le> 1 / 2 ^ 1075" .
    moreover have "0 \<le> \<bar>x\<bar> * unit_roundoff"
      using unit_roundoff_bounds by simp
    ultimately show ?thesis
      by linarith
  qed
qed

lemma round_to_double_Finite_value:
  assumes "round_to_double y = Finite x"
  shows "x = round_value y"
  using assms by (auto simp: round_to_double_def Let_def round_value_zero split: if_splits)

lemma round_to_double_powi:
  assumes "0 \<le> k" "k \<le> 1022"
  shows "round_to_double (2 powi k) = Finite (2 powi k)"
proof -
  have "(2::rat) powi k \<le> 2 powi 1022"
    using assms(2) by (intro power_int_increasing) auto
  also have "\<dots> < 2 ^ 1024"
    by simp
  finally have "(2::rat) powi k < 2 ^ 1024" .
  moreover have pos: "(0::rat) < 2 powi k"
    by (rule powi_two_pos)
  moreover have "\<not> (2::rat) powi k \<le> - (2 ^ 1024)"
  proof -
    have "- (2 ^ 1024) < (0::rat)"
      by simp
    with pos show ?thesis
      by linarith
  qed
  moreover have "(2::rat) powi k \<noteq> 0"
    using pos by simp
  ultimately show ?thesis
    using assms(1) by (simp add: round_to_double_def Let_def round_value_powi)
qed

lemma subtraction_error:
  fixes x w ra rf :: rat
  assumes "\<bar>x - (w - ra)\<bar> \<le> \<bar>w - ra\<bar> * unit_roundoff + 1 / 2 ^ 1075"
    "approx 1 w (ra + rf)"
    "1 / 2 ^ 902 \<le> w" "0 < ra" "0 < rf"
  shows "\<bar>x - rf\<bar> \<le> w / 2 ^ 51"
proof -
  have ew: "9007199254740991 * ra + 9007199254740991 * rf \<le> 9007199254740992 * w"
    "9007199254740992 * w \<le> 9007199254740993 * ra + 9007199254740993 * rf"
    using assms(2) by (simp_all add: approx_def unit_roundoff_def field_simps)
  have t: "(1 / 2 ^ 1075 :: rat) \<le> (1 / 2 ^ 902) / 2 ^ 53"
    by simp
  have "(1 / 2 ^ 902) / 2 ^ 53 \<le> w / 2 ^ 53"
    using assms(3) by (intro divide_right_mono) simp_all
  with t have tiny: "1 / 2 ^ 1075 \<le> w / 9007199254740992"
    by simp
  have ex: "\<bar>x - (w - ra)\<bar> \<le> \<bar>w - ra\<bar> / 9007199254740992 + w / 9007199254740992"
    using assms(1) tiny by (simp add: unit_roundoff_def)
  have d: "w - ra - rf \<le> ra / 9007199254740992 + rf / 9007199254740992"
    "rf - (w - ra) \<le> ra / 9007199254740992 + rf / 9007199254740992"
    using ew by linarith+
  have D: "\<bar>w - ra\<bar> \<le> rf + ra / 9007199254740992 + rf / 9007199254740992"
    using d assms(4,5) by linarith
  have "\<bar>w - ra\<bar> / 9007199254740992
      \<le> (rf + ra / 9007199254740992 + rf / 9007199254740992) / 9007199254740992"
    using D by (intro divide_right_mono) simp_all
  then have "\<bar>w - ra\<bar> / 9007199254740992
      \<le> rf / 9007199254740992 + ra / 81129638414606681695789005144064
        + rf / 81129638414606681695789005144064"
    by (simp add: add_divide_distrib)
  with ex have e: "\<bar>x - (w - ra)\<bar>
      \<le> rf / 9007199254740992 + ra / 81129638414606681695789005144064
        + rf / 81129638414606681695789005144064 + w / 9007199254740992"
    by linarith
  have "\<bar>x - rf\<bar> \<le> \<bar>x - (w - ra)\<bar> + \<bar>w - ra - rf\<bar>"
    by linarith
  moreover have "\<bar>w - ra - rf\<bar> \<le> ra / 9007199254740992 + rf / 9007199254740992"
    using d by linarith
  ultimately have "\<bar>x - rf\<bar> \<le> w / 2251799813685248"
    using e ew assms(4,5) by linarith
  then show ?thesis
    by simp
qed

lemma minus_above_error:
  assumes t: "in_range (300 + 300) t" and d: "in_range 300 d" and r: "1 \<le> r" "r \<le> 2 ^ 300"
  obtains R w ra rf x where "int_to_float r = Inr (Finite R)"
    "float_mul (float_mul (Finite R) top_area) (Finite t) = Finite ra"
    "float_mul (float_mul (Finite R) front_area) (Finite d) = Finite rf"
    "float_add (Finite ra) (Finite rf) = Finite w"
    "float_sub (Finite w) (Finite ra) = Finite x"
    "\<bar>x - rf\<bar> \<le> w / 2 ^ 51"
proof -
  have "in_range 300 (of_int r)"
  proof -
    have "(of_int 1 :: rat) \<le> of_int r" "(of_int r :: rat) \<le> of_int (2 ^ 300)"
      using r by (simp_all only: of_int_le_iff)
    moreover have "(2::rat) powi (- 300) \<le> 1"
      by simp
    ultimately show ?thesis
      by (simp add: in_range_def)
  qed
  then obtain R where R: "round_to_double (of_int r) = Finite R" "in_range 300 R"
    by (rule round_in_range) simp_all
  have c: "int_to_float r = Inr (Finite R)"
    by (simp add: int_to_float_def R(1))
  have "in_range (300 + 1) (R * (7505999378950827 / 4503599627370496))"
    using R(2) in_range_areas(1) by (rule in_range_mul)
  then obtain A where A: "round_to_double (R * (7505999378950827 / 4503599627370496)) = Finite A"
    "in_range (300 + 1) A"
    by (rule round_in_range) simp_all
  have "in_range (300 + 1 + (300 + 300)) (A * t)"
    using A(2) t by (rule in_range_mul)
  then obtain ra where ra: "round_to_double (A * t) = Finite ra"
    "in_range (300 + 1 + (300 + 300)) ra"
    by (rule round_in_range) simp_all
  have "in_range (300 + 4) (R * (1368281136787911 / 140737488355328))"
    using R(2) in_range_areas(2) by (rule in_range_mul)
  then obtain F where F: "round_to_double (R * (1368281136787911 / 140737488355328)) = Finite F"
    "in_range (300 + 4) F"
    by (rule round_in_range) simp_all
  have "in_range (300 + 4 + 300) (F * d)"
    using F(2) d by (rule in_range_mul)
  then obtain rf where rf: "round_to_double (F * d) = Finite rf" "in_range (300 + 4 + 300) rf"
    by (rule round_in_range) simp_all
  have "in_range (901 + 1) (ra + rf)"
    using ra(2) rf(2) by (rule in_range_add) simp_all
  then obtain w where w: "round_to_double (ra + rf) = Finite w" "in_range (901 + 1) w"
    "approx 1 w (ra + rf)"
    by (rule round_in_range) simp_all
  have 1: "float_mul (float_mul (Finite R) top_area) (Finite t) = Finite ra"
    by (simp only: top_area_value float_mul.simps A ra)
  have 2: "float_mul (float_mul (Finite R) front_area) (Finite d) = Finite rf"
    by (simp only: front_area_value float_mul.simps F rf)
  have 3: "float_add (Finite ra) (Finite rf) = Finite w"
    by (simp only: float_add.simps w)
  have rapos: "0 < ra" and rfpos: "0 < rf"
    using ra(2) rf(2) by (auto dest: in_range_pos)
  have ra_up: "ra \<le> 2 powi 902"
  proof -
    have "in_range 902 ra"
      using ra(2) by (rule in_range_mono) simp
    then show ?thesis by (simp add: in_range_def)
  qed
  have w_lo: "1 / 2 ^ 902 \<le> w" and w_up: "w \<le> 2 powi 902"
    using w(2) by (simp_all add: in_range_def inverse_eq_divide)
  have "\<bar>w + - ra\<bar> \<le> 2 powi 902"
    using ra_up w_up rapos in_range_pos [OF w(2)] by linarith
  moreover have "round_to_double (2 powi 902) = Finite (2 powi 902)"
    by (rule round_to_double_powi) simp_all
  ultimately obtain x where x: "round_to_double (w + - ra) = Finite x"
    by (rule round_to_double_bounded)
  have 4: "float_sub (Finite w) (Finite ra) = Finite x"
    by (simp only: float_sub_def float_neg.simps float_add.simps x)
  have "x = round_value (w + - ra)"
    using x by (rule round_to_double_Finite_value)
  then have "\<bar>x - (w - ra)\<bar> \<le> \<bar>w - ra\<bar> * unit_roundoff + 1 / 2 ^ 1075"
    using round_value_error_abs [of "w + - ra"] by simp
  then have "\<bar>x - rf\<bar> \<le> w / 2 ^ 51"
    using w(3) w_lo rapos rfpos by (rule subtraction_error)
  with c 1 2 3 4 show ?thesis
    by (rule that)
qed

text \<open>
  Claim C8, amended. For every speed other than zero, \<open>simulate_wetness(s, d, r)\<close> is the float
  sum of \<open>r * (20/12 * 12/12) * (d / s)\<close> and the front-impact term
  \<open>r * (70/12 * 20/12) * d\<close>, a term computed from the distance and the density alone, so the
  same double for every speed. Subtracting the first summand from the result gives the
  front-impact term back only up to rounding: for a speed and a distance between
  \<open>2 ^ - 300\<close> and \<open>2 ^ 300\<close>, each an int or a float, and an integer density between 1 and
  \<open>2 ^ 300\<close>, the result \<open>w\<close>, the front-impact term \<open>f\<close> and the difference \<open>x\<close> are finite
  doubles with \<open>\<bar>x - f\<bar> \<le> w / 2 ^ 51\<close>. The error is bounded relative to the result, not to
  the front-impact term.
\<close>

theorem simulate_wetness_above_plus_front:
  assumes "\<not> num_is_zero s"
  shows "simulate_wetness s d r =
      (case above_impact s d r of
         Inl e \<Rightarrow> Inl e
       | Inr a \<Rightarrow> (case front_impact d r of Inl e \<Rightarrow> Inl e | Inr f \<Rightarrow> Inr (float_add a f))) \<and>
    (in_box s \<and> in_box d \<and> 1 \<le> r \<and> r \<le> 2 ^ 300 \<longrightarrow>
      (\<exists>w f x. simulate_wetness s d r = Inr (Finite w) \<and> front_impact d r = Inr (Finite f) \<and>
         wetness_minus_above s d r = Inr (Finite x) \<and> \<bar>x - f\<bar> \<le> w / 2 ^ 51))"
proof
  show "simulate_wetness s d r =
      (case above_impact s d r of
         Inl e \<Rightarrow> Inl e
       | Inr a \<Rightarrow> (case front_impact d r of Inl e \<Rightarrow> Inl e | Inr f \<Rightarrow> Inr (float_add a f)))"
    using assms by (rule wetness_above_plus_front)
  show "in_box s \<and> in_box d \<and> 1 \<le> r \<and> r \<le> 2 ^ 300 \<longrightarrow>
      (\<exists>w f x. simulate_wetness s d r = Inr (Finite w) \<and> front_impact d r = Inr (Finite f) \<and>
         wetness_minus_above s d r = Inr (Finite x) \<and> \<bar>x - f\<bar> \<le> w / 2 ^ 51)"
  proof
    assume "in_box s \<and> in_box d \<and> 1 \<le> r \<and> r \<le> 2 ^ 300"
    then have b: "in_box s" "in_box d" and r: "1 \<le> r" "r \<le> 2 ^ 300"
      by simp_all
    from b obtain t y where t: "py_truediv d s = Inr (Finite t)"
      and tr: "in_range (300 + 300) t"
      and y: "num_to_float d = Inr (Finite y)" and yr: "in_range 300 y"
      by (rule py_truediv_in_box)
    from tr yr r obtain R w ra rf x where R: "int_to_float r = Inr (Finite R)"
      and ra: "float_mul (float_mul (Finite R) top_area) (Finite t) = Finite ra"
      and rf: "float_mul (float_mul (Finite R) front_area) (Finite y) = Finite rf"
      and w: "float_add (Finite ra) (Finite rf) = Finite w"
      and x: "float_sub (Finite w) (Finite ra) = Finite x"
      and e: "\<bar>x - rf\<bar> \<le> w / 2 ^ 51"
      by (rule minus_above_error)
    have sw: "simulate_wetness s d r = Inr (Finite w)"
      by (simp only: simulate_wetness_value [OF t R y] ra rf w)
    have ab: "above_impact s d r = Inr (Finite ra)"
      by (simp only: above_impact_value [OF t R] ra)
    have fr: "front_impact d r = Inr (Finite rf)"
      by (simp only: front_impact_value [OF R y] rf)
    have "wetness_minus_above s d r = Inr (Finite x)"
      by (simp only: wetness_minus_above_def sw ab sum.case x)
    with sw fr e show "\<exists>w f x. simulate_wetness s d r = Inr (Finite w) \<and>
        front_impact d r = Inr (Finite f) \<and>
        wetness_minus_above s d r = Inr (Finite x) \<and> \<bar>x - f\<bar> \<le> w / 2 ^ 51"
      by blast
  qed
qed

theorem simulate_wetness_above_plus_front_witness:
  "\<not> num_is_zero (PyFloat (Finite 1)) \<and> in_box (PyFloat (Finite 1)) \<and> in_box (PyInt 500) \<and>
   (1::int) \<le> 1000 \<and> (1000::int) \<le> 2 ^ 300 \<and>
   simulate_wetness (PyFloat (Finite 1)) (PyInt 500) 1000 =
    (case above_impact (PyFloat (Finite 1)) (PyInt 500) 1000 of
       Inl e \<Rightarrow> Inl e
     | Inr a \<Rightarrow> (case front_impact (PyInt 500) 1000 of
          Inl e \<Rightarrow> Inl e | Inr f \<Rightarrow> Inr (float_add a f))) \<and>
   (\<exists>w f x. simulate_wetness (PyFloat (Finite 1)) (PyInt 500) 1000 = Inr (Finite w) \<and>
      front_impact (PyInt 500) 1000 = Inr (Finite f) \<and>
      wetness_minus_above (PyFloat (Finite 1)) (PyInt 500) 1000 = Inr (Finite x) \<and>
      \<bar>x - f\<bar> \<le> w / 2 ^ 51)"
proof -
  have h: "\<not> num_is_zero (PyFloat (Finite 1))"
    by simp
  have b: "in_box (PyFloat (Finite 1))" "in_box (PyInt 500)" "(1::int) \<le> 1000"
    "(1000::int) \<le> 2 ^ 300"
    by (simp_all add: in_box_def)
  from simulate_wetness_above_plus_front [OF h, of "PyInt 500" 1000] h b show ?thesis
    by blast
qed

text \<open>
  Subtracting the rain from above from the result does not give the same double at every
  speed: with the default distance and density the difference is \<open>4861111.111111109\<close> at speed
  \<open>0.125\<close> and \<open>4861111.11111111\<close> at speed \<open>1.0\<close>.
\<close>

theorem wetness_minus_above_counterexample:
  "num_lt (PyInt 0) (PyFloat (Finite (1 / 8))) \<and> num_lt (PyInt 0) (PyFloat (Finite 1)) \<and>
   wetness_minus_above (PyFloat (Finite (1 / 8))) (PyInt 500) 1000 = Inr (Finite (5219578311111109 / 1073741824)) \<and>
   wetness_minus_above (PyFloat (Finite 1)) (PyInt 500) 1000 = Inr (Finite (2609789155555555 / 536870912)) \<and>
   \<not> float_eq (Finite (5219578311111109 / 1073741824)) (Finite (2609789155555555 / 536870912))"
proof -
  have 1: "wetness_minus_above (PyFloat (Finite (1 / 8))) (PyInt 500) 1000
      = Inr (Finite (5219578311111109 / 1073741824))"
  proof -
    have nz: "(Finite (1 / 8)) \<noteq> Finite 0"
      by simp
    have c: "int_to_float 1000 = Inr (Finite 1000)"
      by (simp add: int_to_float_def round_eval float_exponent_eq [where e = "9"])
    have t: "float_div (Finite 500) (Finite (1 / 8)) = (Finite 4000)"
      by (simp add: round_eval float_exponent_eq [where e = "11"])
    have a: "float_mul (Finite 1000) top_area = (Finite (7330077518506667 / 4398046511104))"
      by (simp add: top_area_value round_eval float_exponent_eq [where e = "10"])
    have ra: "float_mul (Finite (7330077518506667 / 4398046511104)) (Finite 4000)
        = (Finite (7158278826666667 / 1073741824))"
      by (simp add: round_eval float_exponent_eq [where e = "22"])
    have f: "float_mul (Finite 1000) front_area = (Finite (5344848190577777 / 549755813888))"
      by (simp add: front_area_value round_eval float_exponent_eq [where e = "13"])
    have rf: "float_mul (Finite (5344848190577777 / 549755813888)) (Finite 500)
        = (Finite (2609789155555555 / 536870912))"
      by (simp add: round_eval float_exponent_eq [where e = "22"])
    have w: "float_add (Finite (7158278826666667 / 1073741824)) (Finite (2609789155555555 / 536870912))
        = (Finite (773616071111111 / 67108864))"
      by (simp add: round_eval float_exponent_eq [where e = "23"])
    have x: "float_sub (Finite (773616071111111 / 67108864)) (Finite (7158278826666667 / 1073741824))
        = (Finite (5219578311111109 / 1073741824))"
      by (simp add: float_sub_def round_eval float_exponent_eq [where e = "22"])
    show ?thesis
      unfolding wetness_minus_above_def
      by (simp only: simulate_wetness_float_int [OF nz c int_to_float_500] above_impact_value [OF py_truediv_int_float [OF nz int_to_float_500] c]
          t a ra f rf w x sum.case)
  qed
  have 2: "wetness_minus_above (PyFloat (Finite 1)) (PyInt 500) 1000
      = Inr (Finite (2609789155555555 / 536870912))"
  proof -
    have nz: "(Finite 1) \<noteq> Finite 0"
      by simp
    have c: "int_to_float 1000 = Inr (Finite 1000)"
      by (simp add: int_to_float_def round_eval float_exponent_eq [where e = "9"])
    have t: "float_div (Finite 500) (Finite 1) = (Finite 500)"
      by (simp add: round_eval float_exponent_eq [where e = "8"])
    have a: "float_mul (Finite 1000) top_area = (Finite (7330077518506667 / 4398046511104))"
      by (simp add: top_area_value round_eval float_exponent_eq [where e = "10"])
    have ra: "float_mul (Finite (7330077518506667 / 4398046511104)) (Finite 500)
        = (Finite (7158278826666667 / 8589934592))"
      by (simp add: round_eval float_exponent_eq [where e = "19"])
    have f: "float_mul (Finite 1000) front_area = (Finite (5344848190577777 / 549755813888))"
      by (simp add: front_area_value round_eval float_exponent_eq [where e = "13"])
    have rf: "float_mul (Finite (5344848190577777 / 549755813888)) (Finite 500)
        = (Finite (2609789155555555 / 536870912))"
      by (simp add: round_eval float_exponent_eq [where e = "22"])
    have w: "float_add (Finite (7158278826666667 / 8589934592)) (Finite (2609789155555555 / 536870912))
        = (Finite (6114363164444443 / 1073741824))"
      by (simp add: round_eval float_exponent_eq [where e = "22"])
    have x: "float_sub (Finite (6114363164444443 / 1073741824)) (Finite (7158278826666667 / 8589934592))
        = (Finite (2609789155555555 / 536870912))"
      by (simp add: float_sub_def round_eval float_exponent_eq [where e = "22"])
    show ?thesis
      unfolding wetness_minus_above_def
      by (simp only: simulate_wetness_float_int [OF nz c int_to_float_500] above_impact_value [OF py_truediv_int_float [OF nz int_to_float_500] c]
          t a ra f rf w x sum.case)
  qed
  from 1 2 show ?thesis
    by (simp add: float_eq_def num_lt_def)
qed

section \<open>Scaling in the density\<close>

lemma scaling_error:
  assumes t: "in_range (300 + 300) t" and d: "in_range 300 d" and r: "1 \<le> r" "r \<le> 2 ^ 300"
  obtains R w w1 p where "int_to_float r = Inr (Finite R)"
    "float_add (float_mul (float_mul (Finite R) top_area) (Finite t))
               (float_mul (float_mul (Finite R) front_area) (Finite d)) = Finite w"
    "float_add (float_mul (float_mul (Finite 1) top_area) (Finite t))
               (float_mul (float_mul (Finite 1) front_area) (Finite d)) = Finite w1"
    "float_mul (Finite R) (Finite w1) = Finite p"
    "\<bar>w - p\<bar> \<le> p / 2 ^ 50"
proof -
  have dpos: "0 \<le> d"
    using in_range_pos [OF d] by simp
  have "in_range 300 (of_int r)"
  proof -
    have "(of_int 1 :: rat) \<le> of_int r" "(of_int r :: rat) \<le> of_int (2 ^ 300)"
      using r by (simp_all only: of_int_le_iff)
    moreover have "(2::rat) powi (- 300) \<le> 1"
      by simp
    ultimately show ?thesis
      by (simp add: in_range_def)
  qed
  then obtain R where R: "round_to_double (of_int r) = Finite R" "in_range 300 R"
    by (rule round_in_range) simp_all
  have c: "int_to_float r = Inr (Finite R)"
    by (simp add: int_to_float_def R(1))
  have Rpos: "0 \<le> R"
    using in_range_pos [OF R(2)] by simp
  have tpos: "0 \<le> t"
    using in_range_pos [OF t] by simp
  have A_r: "in_range (300 + 1) (R * (7505999378950827 / 4503599627370496))"
    using R(2) in_range_areas(1) by (rule in_range_mul)
  have A_k: "(0::int) \<le> 300 + 1" "(300 + 1 :: int) \<le> 1022"
    by simp_all
  have A_a: "approx (0) (R * (7505999378950827 / 4503599627370496)) (R * (7505999378950827 / 4503599627370496))"
    by (rule approx_refl)
  have A_p: "0 \<le> R * (7505999378950827 / 4503599627370496)"
    using Rpos dpos tpos by simp
  from A_r A_k A_a A_p obtain A where A: "round_to_double (R * (7505999378950827 / 4503599627370496))
      = Finite A"
    "in_range (300 + 1) A" "approx (Suc (0)) A (R * (7505999378950827 / 4503599627370496))"
    by (rule round_approx)
  have ra_r: "in_range (300 + 1 + (300 + 300)) (A * t)"
    using A(2) t by (rule in_range_mul)
  have ra_k: "(0::int) \<le> 300 + 1 + (300 + 300)" "(300 + 1 + (300 + 300) :: int) \<le> 1022"
    by simp_all
  have ra_a: "approx (Suc 0) (A * t) (R * (7505999378950827 / 4503599627370496) * t)"
    using A(3) tpos by (rule approx_mul_right)
  have ra_p: "0 \<le> R * (7505999378950827 / 4503599627370496) * t"
    using Rpos dpos tpos by simp
  from ra_r ra_k ra_a ra_p obtain ra where ra: "round_to_double (A * t) = Finite ra"
    "in_range (300 + 1 + (300 + 300)) ra"
      "approx (Suc (Suc 0)) ra (R * (7505999378950827 / 4503599627370496) * t)"
    by (rule round_approx)
  have F_r: "in_range (300 + 4) (R * (1368281136787911 / 140737488355328))"
    using R(2) in_range_areas(2) by (rule in_range_mul)
  have F_k: "(0::int) \<le> 300 + 4" "(300 + 4 :: int) \<le> 1022"
    by simp_all
  have F_a: "approx (0) (R * (1368281136787911 / 140737488355328)) (R * (1368281136787911 / 140737488355328))"
    by (rule approx_refl)
  have F_p: "0 \<le> R * (1368281136787911 / 140737488355328)"
    using Rpos dpos tpos by simp
  from F_r F_k F_a F_p obtain F where F: "round_to_double (R * (1368281136787911 / 140737488355328))
      = Finite F"
    "in_range (300 + 4) F" "approx (Suc (0)) F (R * (1368281136787911 / 140737488355328))"
    by (rule round_approx)
  have rf_r: "in_range (300 + 4 + 300) (F * d)"
    using F(2) d by (rule in_range_mul)
  have rf_k: "(0::int) \<le> 300 + 4 + 300" "(300 + 4 + 300 :: int) \<le> 1022"
    by simp_all
  have rf_a: "approx (Suc 0) (F * d) (R * (1368281136787911 / 140737488355328) * d)"
    using F(3) dpos by (rule approx_mul_right)
  have rf_p: "0 \<le> R * (1368281136787911 / 140737488355328) * d"
    using Rpos dpos tpos by simp
  from rf_r rf_k rf_a rf_p obtain rf where rf: "round_to_double (F * d) = Finite rf"
    "in_range (300 + 4 + 300) rf"
      "approx (Suc (Suc 0)) rf (R * (1368281136787911 / 140737488355328) * d)"
    by (rule round_approx)
  have w_r: "in_range (901 + 1) (ra + rf)"
    using ra(2) rf(2) by (rule in_range_add) simp_all
  have w_k: "(0::int) \<le> 901 + 1" "(901 + 1 :: int) \<le> 1022"
    by simp_all
  have w_a: "approx (Suc (Suc 0)) (ra + rf) (R * (7505999378950827 / 4503599627370496) * t + R * (1368281136787911 / 140737488355328) * d)"
    using ra(3) rf(3) by (rule approx_add)
  have w_p: "0 \<le> R * (7505999378950827 / 4503599627370496) * t + R * (1368281136787911 / 140737488355328) * d"
    using Rpos dpos tpos by simp
  from w_r w_k w_a w_p obtain w where w: "round_to_double (ra + rf) = Finite w"
    "in_range (901 + 1) w"
      "approx (Suc (Suc (Suc 0))) w (R * (7505999378950827 / 4503599627370496) * t + R * (1368281136787911 / 140737488355328) * d)"
    by (rule round_approx)
  have sw: "float_add (float_mul (float_mul (Finite R) top_area) (Finite t))
               (float_mul (float_mul (Finite R) front_area) (Finite d)) = Finite w"
    by (simp only: top_area_value front_area_value float_mul.simps float_add.simps
        A ra F rf w)
  have ra1_r: "in_range (1 + (300 + 300)) ((7505999378950827 / 4503599627370496) * t)"
    using in_range_areas(1) t by (rule in_range_mul)
  have ra1_k: "(0::int) \<le> 1 + (300 + 300)" "(1 + (300 + 300) :: int) \<le> 1022"
    by simp_all
  have ra1_a: "approx (0) ((7505999378950827 / 4503599627370496) * t) ((7505999378950827 / 4503599627370496) * t)"
    by (rule approx_refl)
  have ra1_p: "0 \<le> (7505999378950827 / 4503599627370496) * t"
    using Rpos dpos tpos by simp
  from ra1_r ra1_k ra1_a ra1_p obtain ra1 where ra1: "round_to_double ((7505999378950827 / 4503599627370496) * t)
      = Finite ra1"
    "in_range (1 + (300 + 300)) ra1"
      "approx (Suc (0)) ra1 ((7505999378950827 / 4503599627370496) * t)"
    by (rule round_approx)
  have rf1_r: "in_range (4 + 300) ((1368281136787911 / 140737488355328) * d)"
    using in_range_areas(2) d by (rule in_range_mul)
  have rf1_k: "(0::int) \<le> 4 + 300" "(4 + 300 :: int) \<le> 1022"
    by simp_all
  have rf1_a: "approx (0) ((1368281136787911 / 140737488355328) * d) ((1368281136787911 / 140737488355328) * d)"
    by (rule approx_refl)
  have rf1_p: "0 \<le> (1368281136787911 / 140737488355328) * d"
    using Rpos dpos tpos by simp
  from rf1_r rf1_k rf1_a rf1_p obtain rf1 where rf1: "round_to_double ((1368281136787911 / 140737488355328) * d)
      = Finite rf1"
    "in_range (4 + 300) rf1" "approx (Suc (0)) rf1 ((1368281136787911 / 140737488355328) * d)"
    by (rule round_approx)
  have w1_r: "in_range (601 + 1) (ra1 + rf1)"
    using ra1(2) rf1(2) by (rule in_range_add) simp_all
  have w1_k: "(0::int) \<le> 601 + 1" "(601 + 1 :: int) \<le> 1022"
    by simp_all
  have w1_a: "approx (Suc 0) (ra1 + rf1) ((7505999378950827 / 4503599627370496) * t + (1368281136787911 / 140737488355328) * d)"
    using ra1(3) rf1(3) by (rule approx_add)
  have w1_p: "0 \<le> (7505999378950827 / 4503599627370496) * t + (1368281136787911 / 140737488355328) * d"
    using Rpos dpos tpos by simp
  from w1_r w1_k w1_a w1_p obtain w1 where w1: "round_to_double (ra1 + rf1) = Finite w1"
    "in_range (601 + 1) w1"
      "approx (Suc (Suc 0)) w1 ((7505999378950827 / 4503599627370496) * t + (1368281136787911 / 140737488355328) * d)"
    by (rule round_approx)
  have sw1: "float_add (float_mul (float_mul (Finite 1) top_area) (Finite t))
               (float_mul (float_mul (Finite 1) front_area) (Finite d)) = Finite w1"
    by (simp only: float_mul_1_areas float_mul.simps float_add.simps ra1 rf1 w1)
  have p_r: "in_range (300 + (601 + 1)) (R * w1)"
    using R(2) w1(2) by (rule in_range_mul)
  have p_k: "(0::int) \<le> 300 + (601 + 1)" "(300 + (601 + 1) :: int) \<le> 1022"
    by simp_all
  have p_a: "approx (Suc (Suc 0)) (R * w1) (R * ((7505999378950827 / 4503599627370496) * t + (1368281136787911 / 140737488355328) * d))"
    using w1(3) Rpos by (rule approx_mul_left)
  have p_p: "0 \<le> R * ((7505999378950827 / 4503599627370496) * t + (1368281136787911 / 140737488355328) * d)"
    using Rpos dpos tpos by simp
  from p_r p_k p_a p_p obtain p where p: "round_to_double (R * w1) = Finite p"
    "in_range (300 + (601 + 1)) p"
      "approx (Suc (Suc (Suc 0))) p (R * ((7505999378950827 / 4503599627370496) * t + (1368281136787911 / 140737488355328) * d))"
    by (rule round_approx)
  have sp: "float_mul (Finite R) (Finite w1) = Finite p"
    by (simp only: float_mul.simps p)
  have x: "R * (7505999378950827 / 4503599627370496) * t + R * (1368281136787911 / 140737488355328) * d
      = R * ((7505999378950827 / 4503599627370496) * t + (1368281136787911 / 140737488355328) * d)"
    by (simp add: algebra_simps)
  have "approx (Suc (Suc (Suc 0))) w (R * ((7505999378950827 / 4503599627370496) * t + (1368281136787911 / 140737488355328) * d))"
    "approx (Suc (Suc (Suc 0))) p (R * ((7505999378950827 / 4503599627370496) * t + (1368281136787911 / 140737488355328) * d))"
    using w(3) p(3) by (simp_all only: x)
  then have "approx 3 w (R * ((7505999378950827 / 4503599627370496) * t + (1368281136787911 / 140737488355328) * d))"
    "approx 3 p (R * ((7505999378950827 / 4503599627370496) * t + (1368281136787911 / 140737488355328) * d))"
    by (simp_all only: numeral_3_eq_3)
  moreover have "0 \<le> R * ((7505999378950827 / 4503599627370496) * t + (1368281136787911 / 140737488355328) * d)"
    using Rpos dpos tpos by simp
  ultimately have "\<bar>w - p\<bar> \<le> p / 2 ^ 50"
    by (rule approx_close)
  with c sw sw1 sp show ?thesis
    by (rule that)
qed

text \<open>
  Linearity in the density is not exact: with speed \<open>3.3\<close> and distance 500,
  \<open>simulate_wetness(3.3, 500, 1000)\<close> and \<open>1000 * simulate_wetness(3.3, 500, 1)\<close> are
  neighbouring doubles.
\<close>

theorem scaling_law_counterexample:
  "num_lt (PyInt 0) (PyFloat (round_to_double (33 / 10))) \<and>
   simulate_wetness (PyFloat (round_to_double (33 / 10))) (PyInt 500) 1000 = Inr (Finite (5490725236363635 / 1073741824)) \<and>
   scaled_unit_wetness (PyFloat (round_to_double (33 / 10))) (PyInt 500) 1000 = Inr (Finite (1372681309090909 / 268435456)) \<and>
   \<not> float_eq (Finite (5490725236363635 / 1073741824)) (Finite (1372681309090909 / 268435456))"
proof -
  have 1: "simulate_wetness (PyFloat (Finite (3715469692580659 / 1125899906842624))) (PyInt 500) 1000
      = Inr (Finite (5490725236363635 / 1073741824))"
    by (rule wetness_at_3_3)
  have 2: "scaled_unit_wetness (PyFloat (Finite (3715469692580659 / 1125899906842624))) (PyInt 500) 1000
      = Inr (Finite (1372681309090909 / 268435456))"
  proof -
    have nz: "(Finite (3715469692580659 / 1125899906842624)) \<noteq> Finite 0"
      by simp
    have c: "int_to_float 1 = Inr (Finite 1)"
      by (rule int_to_float_1)
    have t: "float_div (Finite 500) (Finite (3715469692580659 / 1125899906842624))
        = (Finite (5330965468004849 / 35184372088832))"
      by (simp add: round_eval float_exponent_eq [where e = "7"])
    have a: "float_mul (Finite 1) top_area = (Finite (7505999378950827 / 4503599627370496))"
      by (simp add: top_area_value round_eval float_exponent_eq [where e = "0"])
    have ra: "float_mul (Finite (7505999378950827 / 4503599627370496)) (Finite (5330965468004849 / 35184372088832))
        = (Finite (8884942446674749 / 35184372088832))"
      by (simp add: round_eval float_exponent_eq [where e = "7"])
    have f: "float_mul (Finite 1) front_area = (Finite (1368281136787911 / 140737488355328))"
      by (simp add: front_area_value round_eval float_exponent_eq [where e = "3"])
    have rf: "float_mul (Finite (1368281136787911 / 140737488355328)) (Finite 500)
        = (Finite (5344848190577777 / 1099511627776))"
      by (simp add: round_eval float_exponent_eq [where e = "12"])
    have w: "float_add (Finite (8884942446674749 / 35184372088832)) (Finite (5344848190577777 / 1099511627776))
        = (Finite (5622502642036363 / 1099511627776))"
      by (simp add: round_eval float_exponent_eq [where e = "12"])
    have p: "int_mul_float 1000 (Finite (5622502642036363 / 1099511627776))
        = Inr (Finite (1372681309090909 / 268435456))"
      by (simp add: int_mul_float_def int_to_float_def round_eval
          float_exponent_eq [where e = 9] float_exponent_eq [where e = 22])
    show ?thesis
      unfolding scaled_unit_wetness_def
      by (simp only: simulate_wetness_float_int [OF nz c int_to_float_500] t a ra f rf w p sum.case)
  qed
  from 1 2 show ?thesis
    by (simp add: speed_3_3 float_eq_def num_lt_def)
qed

text \<open>
  Claim C3, amended. For a speed and a distance between \<open>2 ^ - 300\<close> and \<open>2 ^ 300\<close>, each an
  int or a float, and an integer density between 1 and \<open>2 ^ 300\<close>,
  \<open>simulate_wetness(speed, distance, density)\<close> and
  \<open>density * simulate_wetness(speed, distance, 1)\<close> are finite doubles that agree to within
  a relative error of \<open>2 ^ - 50\<close>. They are not always the same double.
\<close>

theorem scaling_law_within_rounding:
  assumes "in_box s" "in_box d" "1 \<le> r" "r \<le> 2 ^ 300"
  shows "\<exists>w p. simulate_wetness s d r = Inr (Finite w) \<and>
    scaled_unit_wetness s d r = Inr (Finite p) \<and>
    \<bar>w - p\<bar> \<le> p / 2 ^ 50"
proof -
  from assms(1,2) obtain t x where t: "py_truediv d s = Inr (Finite t)"
    and tr: "in_range (300 + 300) t"
    and x: "num_to_float d = Inr (Finite x)" and xr: "in_range 300 x"
    by (rule py_truediv_in_box)
  from tr xr assms(3,4) obtain R w w1 p where R: "int_to_float r = Inr (Finite R)"
    and w: "float_add (float_mul (float_mul (Finite R) top_area) (Finite t))
               (float_mul (float_mul (Finite R) front_area) (Finite x)) = Finite w"
    and w1: "float_add (float_mul (float_mul (Finite 1) top_area) (Finite t))
               (float_mul (float_mul (Finite 1) front_area) (Finite x)) = Finite w1"
    and p: "float_mul (Finite R) (Finite w1) = Finite p"
    and e: "\<bar>w - p\<bar> \<le> p / 2 ^ 50"
    by (rule scaling_error)
  have sw: "simulate_wetness s d r = Inr (Finite w)"
    by (simp only: simulate_wetness_value [OF t R x] w)
  have sw1: "simulate_wetness s d 1 = Inr (Finite w1)"
    by (simp only: simulate_wetness_value [OF t int_to_float_1 x] w1)
  have sp: "scaled_unit_wetness s d r = Inr (Finite p)"
    by (simp only: scaled_unit_wetness_def sw1 int_mul_float_def R sum.case p)
  from sw sp e show ?thesis
    by blast
qed

theorem scaling_law_within_rounding_witness:
  "in_box (PyFloat (Finite (3715469692580659 / 1125899906842624))) \<and> in_box (PyInt 500) \<and>
   (1 :: int) \<le> 1000 \<and> (1000 :: int) \<le> 2 ^ 300 \<and>
   (\<exists>w p. simulate_wetness (PyFloat (Finite (3715469692580659 / 1125899906842624)))
        (PyInt 500) 1000 = Inr (Finite w) \<and>
      scaled_unit_wetness (PyFloat (Finite (3715469692580659 / 1125899906842624)))
        (PyInt 500) 1000 = Inr (Finite p) \<and>
      \<bar>w - p\<bar> \<le> p / 2 ^ 50)"
proof -
  have h: "in_box (PyFloat (Finite (3715469692580659 / 1125899906842624)))"
    "in_box (PyInt 500)"
    "(1 :: int) \<le> 1000" "(1000 :: int) \<le> 2 ^ 300"
    by (simp_all add: in_box_def)
  from scaling_law_within_rounding [OF h] h show ?thesis
    by blast
qed

end
